theory Spec2Isabelle
  imports Complex_Main "HOL-Library.AList" "HOL-Library.Multiset"
begin

section \<open>Data model\<close>

text \<open>
  The tables of \<^verbatim>\<open>1TEAM_XMAS_HACK.py\<close> are lists of rows, in index order. Python floats
  are modelled as reals; the one float value that the computation itself creates and that
  is no real, NaN (from \<^verbatim>\<open>0/0\<close>, and the mean of an empty column), is the value \<open>None\<close> of
  \<open>npfloat\<close>. Where the rounding of the floats decides a property, which is the case
  for the daily sums against \<^verbatim>\<open>LIMIT_MAX\<close>, the doubles themselves are modelled, in the
  section on double precision. The input tables hold no missing values, and the rate of each row's
  currency (the left merges of lines 101 and 102) is already attached to the row as its
  field \<open>rate\<close>. Timestamps are integers. Provider identifiers are integers, as
  \<^verbatim>\<open>str(provider_id)\<close> and the default \<^verbatim>\<open>0\<close> of the column
  \<^verbatim>\<open>Successful provider\<close> suggest.
\<close>

datatype error = ValueError | IndexError | KeyError

type_synonym npfloat = "real option"

record payment =
  amount :: real
  eventTimeRes :: int
  cur :: string
  rate :: real

record provider =
  ID :: int
  CURRENCY :: string
  TIME :: int
  MIN_SUM :: real
  MAX_SUM :: real
  LIMIT_MIN :: real
  LIMIT_MAX :: real
  COMMISSION :: real
  CONVERSION :: real
  AVG_TIME :: real
  rate :: real

text \<open>A row of the payments table after routing: the payment and the four added columns.\<close>

record routed =
  payment_row :: payment
  flow :: string
  Profit :: real
  Processing_Time :: real
  Successful_provider :: int

datatype mark = Max | Min

section \<open>Array arithmetic with NaN\<close>

definition nf2 :: "(real \<Rightarrow> real \<Rightarrow> real) \<Rightarrow> npfloat \<Rightarrow> npfloat \<Rightarrow> npfloat" where
  "nf2 f a b = (case a of None \<Rightarrow> None | Some x \<Rightarrow> (case b of None \<Rightarrow> None | Some y \<Rightarrow> Some (f x y)))"

text \<open>
  Division: \<^verbatim>\<open>0/0\<close> is NaN. A nonzero value over zero would be an infinity, which
  the model does not have; both divisions of the program divide by a root of a sum of
  squares that has the dividend's square among its terms, or by a sum of two roots that
  has the dividend among its terms, so a zero divisor comes with a zero dividend
  (lemmas \<open>norm_zero_entries\<close> and \<open>coef_divisor_zero\<close>).
\<close>

definition nf_div :: "npfloat \<Rightarrow> npfloat \<Rightarrow> npfloat" where
  "nf_div a b = (case a of None \<Rightarrow> None | Some x \<Rightarrow>
     (case b of None \<Rightarrow> None | Some y \<Rightarrow> if y = 0 then None else Some (x / y)))"

definition nf_sqrt :: "npfloat \<Rightarrow> npfloat" where
  "nf_sqrt a = (case a of None \<Rightarrow> None | Some x \<Rightarrow> if x < 0 then None else Some (sqrt x))"

definition nf_sum :: "npfloat list \<Rightarrow> npfloat" where
  "nf_sum xs = foldl (nf2 (+)) (Some 0) xs"

definition nf_sq :: "npfloat \<Rightarrow> npfloat" where
  "nf_sq a = nf2 (*) a a"

text \<open>\<^verbatim>\<open>.max()\<close> and \<^verbatim>\<open>.min()\<close> of a numpy array: ValueError on an empty array, NaN as soon
  as one entry is NaN.\<close>

definition np_max :: "npfloat list \<Rightarrow> error + npfloat" where
  "np_max xs = (case xs of [] \<Rightarrow> Inl ValueError | x # ys \<Rightarrow> Inr (foldl (nf2 max) x ys))"

definition np_min :: "npfloat list \<Rightarrow> error + npfloat" where
  "np_min xs = (case xs of [] \<Rightarrow> Inl ValueError | x # ys \<Rightarrow> Inr (foldl (nf2 min) x ys))"

text \<open>\<^verbatim>\<open>Series.mean()\<close>: NaN on an empty series.\<close>

definition np_mean :: "real list \<Rightarrow> npfloat" where
  "np_mean xs = (if xs = [] then None else Some (sum_list xs / real (length xs)))"

section \<open>TOPSIS ranking\<close>

text \<open>
  A matrix is the list of its rows; every row has one entry per criterion. A criterion is
  the column it names, that is, the field selector.
\<close>

definition column :: "nat \<Rightarrow> npfloat list list \<Rightarrow> npfloat list" where
  "column j matrix = map (\<lambda>r. r ! j) matrix"

definition normalize_matrix ::
  "provider list \<Rightarrow> (provider \<Rightarrow> real) list \<Rightarrow> real list \<Rightarrow> npfloat list list" where
  "normalize_matrix providers criterions weights =
     (let matrix = map (\<lambda>p. map (\<lambda>c. Some (c p)) criterions) providers;
          norms = map (\<lambda>j. nf_sqrt (nf_sum (map nf_sq (column j matrix)))) [0..<length criterions];
          norm_matrix = map (\<lambda>r. map2 nf_div r norms) matrix;
          weighted_matrix = map (\<lambda>r. map2 (nf2 (*)) r (map Some weights)) norm_matrix
      in weighted_matrix)"

fun solutions_loop ::
  "npfloat list list \<Rightarrow> nat \<Rightarrow> mark list \<Rightarrow> error + (npfloat list \<times> npfloat list)" where
  "solutions_loop matrix i [] = Inr ([], [])"
| "solutions_loop matrix i (mk # marks) =
     (case np_max (column i matrix) of Inl e \<Rightarrow> Inl e | Inr hi \<Rightarrow>
       (case np_min (column i matrix) of Inl e \<Rightarrow> Inl e | Inr lo \<Rightarrow>
         (case solutions_loop matrix (Suc i) marks of Inl e \<Rightarrow> Inl e | Inr (good, bad) \<Rightarrow>
           (case mk of Max \<Rightarrow> Inr (hi # good, lo # bad)
                     | Min \<Rightarrow> Inr (lo # good, hi # bad)))))"

definition calculate_solutions ::
  "npfloat list list \<Rightarrow> mark list \<Rightarrow> error + (npfloat list \<times> npfloat list)" where
  "calculate_solutions matrix criterion_types = solutions_loop matrix 0 criterion_types"

definition dist_to :: "npfloat list \<Rightarrow> npfloat list \<Rightarrow> npfloat" where
  "dist_to row v = nf_sqrt (nf_sum (map nf_sq (map2 (nf2 (-)) row v)))"

definition coef_row :: "npfloat list \<Rightarrow> npfloat list \<Rightarrow> npfloat list \<Rightarrow> npfloat" where
  "coef_row good bad row =
     (let dist_to_good = dist_to row good;
          dist_to_bad = dist_to row bad
      in nf_div dist_to_bad (nf2 (+) dist_to_good dist_to_bad))"

definition calculate_distances ::
  "npfloat list list \<Rightarrow> npfloat list \<Rightarrow> npfloat list \<Rightarrow> npfloat list" where
  "calculate_distances matrix good bad = map (coef_row good bad) matrix"

text \<open>
  \<^verbatim>\<open>sort_values(by='topsis_score', ascending=False)\<close>: descending, NaN last. Rows with
  equal scores keep their order (numpy sorts short arrays by insertion; pandas promises
  no order of ties on longer ones).
\<close>

definition better :: "npfloat \<Rightarrow> npfloat \<Rightarrow> bool" where
  "better a b = (case a of None \<Rightarrow> False | Some x \<Rightarrow> (case b of None \<Rightarrow> True | Some y \<Rightarrow> y < x))"

fun insert_score :: "('a \<times> npfloat) \<Rightarrow> ('a \<times> npfloat) list \<Rightarrow> ('a \<times> npfloat) list" where
  "insert_score x [] = [x]"
| "insert_score x (y # ys) =
     (if better (snd y) (snd x) then y # insert_score x ys else x # y # ys)"

definition sort_values :: "('a \<times> npfloat) list \<Rightarrow> ('a \<times> npfloat) list" where
  "sort_values rows = foldr insert_score rows []"

definition rank_providers :: "provider list \<Rightarrow> npfloat list \<Rightarrow> (provider \<times> npfloat) list" where
  "rank_providers providers coef = sort_values (zip providers coef)"

definition topsis ::
  "provider list \<Rightarrow> (provider \<Rightarrow> real) list \<Rightarrow> real list \<Rightarrow> mark list
     \<Rightarrow> error + (provider \<times> npfloat) list" where
  "topsis providers criterions weights criterion_types =
     (let provider_matrix = normalize_matrix providers criterions weights
      in case calculate_solutions provider_matrix criterion_types of
           Inl e \<Rightarrow> Inl e
         | Inr (good_provider, bad_provider) \<Rightarrow>
             Inr (rank_providers providers
                    (calculate_distances provider_matrix good_provider bad_provider)))"


section \<open>Eligible providers of a payment\<close>

text \<open>
  Lines 126 and 127: the records of the payment's currency that are not later than the
  payment, and of these, per identifier, the first one with the greatest \<^verbatim>\<open>TIME\<close>
  (\<^verbatim>\<open>groupby('ID')['TIME'].idxmax()\<close>; the groups come in ascending order of the
  identifier).
\<close>

fun latest :: "provider \<Rightarrow> provider list \<Rightarrow> provider" where
  "latest best [] = best"
| "latest best (p # ps) = latest (if TIME best < TIME p then p else best) ps"

definition idxmax_rows :: "provider list \<Rightarrow> provider list" where
  "idxmax_rows rows =
     concat (map (\<lambda>i. case filter (\<lambda>p. ID p = i) rows of [] \<Rightarrow> [] | p # ps \<Rightarrow> [latest p ps])
                 (sort (remdups (map ID rows))))"

definition filtered_providers :: "provider list \<Rightarrow> int \<Rightarrow> string \<Rightarrow> provider list" where
  "filtered_providers providers payment_time currency =
     idxmax_rows (filter (\<lambda>p. TIME p \<le> payment_time \<and> CURRENCY p = currency) providers)"

definition criterions :: "(provider \<Rightarrow> real) list" where
  "criterions = [CONVERSION, COMMISSION, AVG_TIME]"

definition weights :: "real list" where
  "weights = [0.2, 0.6, 0.2]"

definition marks :: "mark list" where
  "marks = [Max, Min, Min]"

text \<open>Lines 126 to 132: the ranked providers a payment is offered to, best first.\<close>

definition sorted_providers ::
  "provider list \<Rightarrow> int \<Rightarrow> string \<Rightarrow> error + (provider \<times> npfloat) list" where
  "sorted_providers providers payment_time currency =
     (case topsis (filtered_providers providers payment_time currency) criterions weights marks of
        Inl e \<Rightarrow> Inl e
      | Inr ranked_providers \<Rightarrow>
          Inr (sort_values (filter (\<lambda>(p, s). TIME p \<le> payment_time) ranked_providers)))"

text \<open>
  The selection as section 4.3 of the specification words it, for comparison with
  \<open>filtered_providers\<close>: the records of the currency, of these per identifier the latest
  one whatever the payment's time is, and then only those not later than the payment.
\<close>

definition spec_two_step_eligibility :: "provider list \<Rightarrow> int \<Rightarrow> string \<Rightarrow> provider list" where
  "spec_two_step_eligibility providers payment_time currency =
     filter (\<lambda>p. TIME p \<le> payment_time)
       (idxmax_rows (filter (\<lambda>p. CURRENCY p = currency) providers))"

section \<open>Routing one payment\<close>

text \<open>\<^verbatim>\<open>str\<close> of a Python integer, and \<^verbatim>\<open>'-'.join\<close>.\<close>

definition digit :: "nat \<Rightarrow> char" where
  "digit n = ''0123456789'' ! n"

fun str_nat :: "nat \<Rightarrow> string" where
  "str_nat n = (if n < 10 then [digit n] else str_nat (n div 10) @ [digit (n mod 10)])"

definition str :: "int \<Rightarrow> string" where
  "str i = (if i < 0 then CHR ''-'' # str_nat (nat (- i)) else str_nat (nat i))"

fun join :: "string \<Rightarrow> string list \<Rightarrow> string" where
  "join sep [] = []"
| "join sep [x] = x"
| "join sep (x # y # ys) = x @ sep @ join sep (y # ys)"

text \<open>
  The state that the loop over the ranked providers reads and writes: the local variables
  of one payment, the cell \<^verbatim>\<open>Successful provider\<close> of its row, the dictionary
  \<^verbatim>\<open>provider_daily_sums\<close> (an association list in insertion order) and the position in
  the stream of uniform samples that \<^verbatim>\<open>np.random.choice\<close> draws from.
\<close>

record route_state =
  route :: "string list"
  total_commission :: real
  total_processing_time :: real
  is_first :: bool
  successful :: int
  provider_daily_sums :: "(int \<times> real) list"
  draws :: nat

text \<open>
  \<^verbatim>\<open>np.random.choice([True, False], p=[c, 1 - c])\<close> raises ValueError when a probability
  is negative; otherwise it takes one uniform sample \<open>u\<close> of \<open>[0, 1)\<close> and returns
  \<^verbatim>\<open>True\<close> exactly when \<open>u < c\<close>.
\<close>

definition try_provider ::
  "(nat \<Rightarrow> real) \<Rightarrow> real \<Rightarrow> route_state \<Rightarrow> provider \<Rightarrow> error + route_state" where
  "try_provider rng amt st p =
     (if amt < MIN_SUM p \<or> amt > MAX_SUM p then Inr st
      else case map_of (provider_daily_sums st) (ID p) of
        None \<Rightarrow> Inl KeyError
      | Some daily \<Rightarrow>
          if daily \<ge> LIMIT_MAX p then Inr st
          else if CONVERSION p < 0 \<or> 1 - CONVERSION p < 0 then Inl ValueError
          else
            let conversion_success = (rng (draws st) < CONVERSION p);
                st = st\<lparr>draws := Suc (draws st)\<rparr>
            in if \<not> conversion_success then
                 Inr (st\<lparr>total_processing_time :=
                            (if is_first st then total_processing_time st + AVG_TIME p
                             else total_processing_time st),
                          route := route st @ [str (ID p)]\<rparr>)
               else
                 let available_limit = LIMIT_MAX p - daily
                 in if available_limit < amt then
                      Inr (st\<lparr>total_processing_time :=
                                 (if is_first st then total_processing_time st + AVG_TIME p
                                  else total_processing_time st)\<rparr>)
                    else
                      let commission = amt * COMMISSION p;
                          st = st\<lparr>route := route st @ [str (ID p)]\<rparr>
                      in if is_first st then
                           Inr (st\<lparr>successful := ID p,
                                    provider_daily_sums :=
                                      AList.update (ID p) (daily + amt) (provider_daily_sums st),
                                    total_commission := total_commission st + commission,
                                    total_processing_time := total_processing_time st + AVG_TIME p,
                                    is_first := False\<rparr>)
                         else Inr st)"

fun route_loop ::
  "(nat \<Rightarrow> real) \<Rightarrow> real \<Rightarrow> route_state \<Rightarrow> provider list \<Rightarrow> error + route_state" where
  "route_loop rng amt st [] = Inr st"
| "route_loop rng amt st (p # ps) =
     (case try_provider rng amt st p of Inl e \<Rightarrow> Inl e | Inr st' \<Rightarrow> route_loop rng amt st' ps)"

text \<open>The body of the loop over the payments (lines 114 to 173).\<close>

definition process_payment ::
  "provider list \<Rightarrow> (nat \<Rightarrow> real) \<Rightarrow> (int \<times> real) list \<times> nat \<Rightarrow> payment
     \<Rightarrow> error + (routed \<times> (int \<times> real) list \<times> nat)" where
  "process_payment providers rng s pay =
     (let amt = amount pay * payment.rate pay;
          payment_time = eventTimeRes pay;
          currency = cur pay
      in case sorted_providers providers payment_time currency of
           Inl e \<Rightarrow> Inl e
         | Inr ranked \<Rightarrow>
            (case route_loop rng amt
                    \<lparr>route = [], total_commission = 0, total_processing_time = 0,
                      is_first = True, successful = 0,
                      provider_daily_sums = fst s, draws = snd s\<rparr>
                    (map fst ranked) of
               Inl e \<Rightarrow> Inl e
             | Inr st \<Rightarrow>
                 Inr (\<lparr>payment_row = pay,
                        flow = join ''-'' (route st),
                        Profit = (if join ''-'' (route st) \<noteq> '''' then amt - total_commission st
                                  else 0),
                        Processing_Time = total_processing_time st,
                        Successful_provider = successful st\<rparr>,
                      provider_daily_sums st, draws st)))"

fun payments_loop ::
  "provider list \<Rightarrow> (nat \<Rightarrow> real) \<Rightarrow> (int \<times> real) list \<times> nat \<Rightarrow> payment list
     \<Rightarrow> error + (routed list \<times> (int \<times> real) list \<times> nat)" where
  "payments_loop providers rng s [] = Inr ([], s)"
| "payments_loop providers rng s (pay # pays) =
     (case process_payment providers rng s pay of
        Inl e \<Rightarrow> Inl e
      | Inr (row, s') \<Rightarrow>
          (case payments_loop providers rng s' pays of
             Inl e \<Rightarrow> Inl e
           | Inr (rows, s'') \<Rightarrow> Inr (row # rows, s'')))"

section \<open>Penalties, and the batch\<close>

text \<open>Lines 176 to 184, over the items of the dictionary in their order.\<close>

fun limit_penalties ::
  "provider list \<Rightarrow> real \<times> real \<Rightarrow> (int \<times> real) list \<Rightarrow> error + (real \<times> real)" where
  "limit_penalties providers (limit_penalty_used, limit_penalty_all) [] =
     Inr (limit_penalty_used, limit_penalty_all)"
| "limit_penalties providers (limit_penalty_used, limit_penalty_all) ((provider_id, daily_sum) # items) =
     (case filter (\<lambda>p. ID p = provider_id) providers of
        [] \<Rightarrow> Inl IndexError
      | p # _ \<Rightarrow>
          let limit_min = LIMIT_MIN p;
              limit_penalty_all =
                (if limit_min > daily_sum then limit_penalty_all + 0.01 * (limit_min - daily_sum)
                 else limit_penalty_all);
              limit_penalty_used =
                (if daily_sum > 0 \<and> limit_min > daily_sum
                 then limit_penalty_used + 0.01 * (limit_min - daily_sum)
                 else limit_penalty_used)
          in limit_penalties providers (limit_penalty_used, limit_penalty_all) items)"

text \<open>
  Lines 98 to 107: every record takes the daily limits of the first record of its
  identifier, and the four money columns are converted by the record's rate.
\<close>

definition first_of :: "(provider \<Rightarrow> real) \<Rightarrow> provider list \<Rightarrow> provider \<Rightarrow> real" where
  "first_of col providers p =
     (case filter (\<lambda>q. ID q = ID p) providers of [] \<Rightarrow> col p | q # _ \<Rightarrow> col q)"

definition prepare_providers :: "provider list \<Rightarrow> provider list" where
  "prepare_providers providers =
     map (\<lambda>p. p\<lparr>MIN_SUM := MIN_SUM p * provider.rate p,
                MAX_SUM := MAX_SUM p * provider.rate p,
                LIMIT_MIN := first_of LIMIT_MIN providers p * provider.rate p,
                LIMIT_MAX := first_of LIMIT_MAX providers p * provider.rate p\<rparr>) providers"

definition initial_sums :: "provider list \<Rightarrow> (int \<times> real) list" where
  "initial_sums providers = fold (\<lambda>p d. AList.update (ID p) 0 d) providers []"

text \<open>
  \<^verbatim>\<open>optimize_routes\<close>, given the stream of uniform samples. Beside the three values the
  Python returns, the result holds the number of samples taken from the stream.
\<close>

definition optimize_routes ::
  "payment list \<Rightarrow> provider list \<Rightarrow> (nat \<Rightarrow> real)
     \<Rightarrow> error + ((routed list \<times> real \<times> real) \<times> nat)" where
  "optimize_routes payments providers rng =
     (let providers = prepare_providers providers
      in case payments_loop providers rng (initial_sums providers, 0) payments of
           Inl e \<Rightarrow> Inl e
         | Inr (rows, daily, n) \<Rightarrow>
             (case limit_penalties providers (0, 0) daily of
                Inl e \<Rightarrow> Inl e
              | Inr (limit_penalty_used, limit_penalty_all) \<Rightarrow>
                  Inr ((rows, limit_penalty_used, limit_penalty_all), n)))"

text \<open>
  \<^verbatim>\<open>process_transactions\<close>, given the tables as read from their files: mean time over
  the rows with a flow, total profit, and the two penalties. The file
  \<^verbatim>\<open>optimized_payments.csv\<close> that it writes is not part of the model, nor is the column
  \<^verbatim>\<open>DATE\<close> of line 97, which nothing reads.
\<close>

definition process_transactions ::
  "payment list \<Rightarrow> provider list \<Rightarrow> (nat \<Rightarrow> real)
     \<Rightarrow> error + ((npfloat \<times> real \<times> real \<times> real) \<times> nat)" where
  "process_transactions transactions prov rng =
     (case optimize_routes (take 10000 transactions) (take 10000 prov) rng of
        Inl e \<Rightarrow> Inl e
      | Inr ((optimized_payments, general_limit_penalty_used, general_limit_penalty_all), n) \<Rightarrow>
          let time_mean = np_mean (map Processing_Time
                                     (filter (\<lambda>r. flow r \<noteq> '''') optimized_payments));
              profit = sum_list (map Profit optimized_payments)
          in Inr ((time_mean, profit, general_limit_penalty_used, general_limit_penalty_all), n))"

section \<open>Outcomes of an attempt\<close>

text \<open>
  A provider either leaves the daily sums, the successful provider and the flag
  \<^verbatim>\<open>is_first\<close> as they are, or it is the first to commit: then the flag was up and is
  down afterwards, the provider is the successful one, and its daily sum has grown by
  the amount without passing the provider's \<^verbatim>\<open>LIMIT_MAX\<close>. This is so in the arithmetic
  of the reals, in which \<open>try_provider\<close> computes; what the rounding of the floats makes
  of the last part is the subject of the section on double precision.
\<close>

definition unchanged :: "route_state \<Rightarrow> route_state \<Rightarrow> bool" where
  "unchanged st st' \<longleftrightarrow>
     provider_daily_sums st' = provider_daily_sums st \<and> successful st' = successful st \<and>
     is_first st' = is_first st \<and> total_commission st' = total_commission st"

definition committed :: "real \<Rightarrow> provider \<Rightarrow> route_state \<Rightarrow> route_state \<Rightarrow> bool" where
  "committed amt p st st' \<longleftrightarrow>
     is_first st \<and> \<not> is_first st' \<and> successful st' = ID p \<and>
     total_commission st' = total_commission st + amt * COMMISSION p \<and>
     (\<exists>d. map_of (provider_daily_sums st) (ID p) = Some d \<and> d + amt \<le> LIMIT_MAX p \<and>
          provider_daily_sums st' = AList.update (ID p) (d + amt) (provider_daily_sums st))"

section \<open>The daily sum in double precision\<close>

text \<open>
  The sums of \<^verbatim>\<open>provider_daily_sums\<close>, the amounts and the limits are Python floats, that
  is IEEE 754 binary64 numbers, and the capacity check of line 156 and the update of
  line 164 round their results. A finite double is modelled here as a pair \<open>(m, e)\<close> of
  integers that stands for \<open>m * 2 ^ e\<close>. The sum and the difference of two doubles are
  computed exactly on the integers and then rounded to 53 significant bits, to the
  nearest value and to the even mantissa on a tie. Overflow, subnormal numbers,
  infinities and NaN are outside the model: it covers values in the normal range only.
\<close>

type_synonym binary64 = "int \<times> int"

definition b64_value :: "binary64 \<Rightarrow> real" where
  "b64_value x =
     (if 0 \<le> snd x then real_of_int (fst x) * 2 ^ nat (snd x)
      else real_of_int (fst x) / 2 ^ nat (- snd x))"

fun bitlen :: "nat \<Rightarrow> nat" where
  "bitlen n = (if n = 0 then 0 else Suc (bitlen (n div 2)))"

definition round_shift :: "int \<Rightarrow> nat \<Rightarrow> int" where
  "round_shift m k =
     (let q = m div 2 ^ k; r = m mod 2 ^ k
      in if 2 * r < 2 ^ k then q
         else if 2 ^ k < 2 * r then q + 1
         else if even q then q else q + 1)"

definition b64_round :: "int \<times> int \<Rightarrow> binary64" where
  "b64_round x =
     (let k = bitlen (nat \<bar>fst x\<bar>) - 53
      in (round_shift (fst x) k, snd x + int k))"

definition b64_add :: "binary64 \<Rightarrow> binary64 \<Rightarrow> binary64" where
  "b64_add a b =
     (let e = min (snd a) (snd b)
      in b64_round (fst a * 2 ^ nat (snd a - e) + fst b * 2 ^ nat (snd b - e), e))"

definition b64_sub :: "binary64 \<Rightarrow> binary64 \<Rightarrow> binary64" where
  "b64_sub a b = b64_add a (- fst b, snd b)"

definition b64_less :: "binary64 \<Rightarrow> binary64 \<Rightarrow> bool" where
  "b64_less a b =
     (let e = min (snd a) (snd b)
      in fst a * 2 ^ nat (snd a - e) < fst b * 2 ^ nat (snd b - e))"

text \<open>
  What lines 139 to 167 do to \<^verbatim>\<open>provider_daily_sums[provider_id]\<close> when one provider is
  tried for a payment of the converted amount \<open>amt\<close>: the two skip checks (lines 139 and
  141), the outcome of the draw (line 148), the capacity check (lines 154 and 156) and
  the commit of line 164, made only while \<^verbatim>\<open>is_first\<close> holds. The fields of the provider
  are the converted ones. This is \<open>try_provider\<close> restricted to the daily sum, with the
  arithmetic of the floats in place of that of the reals.
\<close>

definition daily_sum_step ::
  "binary64 \<Rightarrow> binary64 \<Rightarrow> binary64 \<Rightarrow> bool \<Rightarrow> bool \<Rightarrow> binary64 \<Rightarrow> binary64 \<Rightarrow> binary64" where
  "daily_sum_step min_sum max_sum limit_max conversion_success is_first' daily amt =
     (if b64_less amt min_sum \<or> b64_less max_sum amt then daily
      else if \<not> b64_less daily limit_max then daily
      else if \<not> conversion_success then daily
      else let available_limit = b64_sub limit_max daily
           in if b64_less available_limit amt then daily
              else if is_first' then b64_add daily amt
              else daily)"

section \<open>Example tables\<close>

definition prov_a :: provider where
  "prov_a = \<lparr>ID = 1, CURRENCY = ''USD'', TIME = 0, MIN_SUM = 1, MAX_SUM = 1000,
              LIMIT_MIN = 500, LIMIT_MAX = 1000, COMMISSION = 0.01, CONVERSION = 1,
              AVG_TIME = 5, rate = 1\<rparr>"

definition prov_b :: provider where
  "prov_b = \<lparr>ID = 2, CURRENCY = ''USD'', TIME = 0, MIN_SUM = 1, MAX_SUM = 1000,
              LIMIT_MIN = 500, LIMIT_MAX = 1000, COMMISSION = 0.05, CONVERSION = 1,
              AVG_TIME = 5, rate = 1\<rparr>"

definition prov_old :: provider where
  "prov_old = \<lparr>ID = 1, CURRENCY = ''USD'', TIME = 1, MIN_SUM = 1, MAX_SUM = 1000,
                LIMIT_MIN = 500, LIMIT_MAX = 1000, COMMISSION = 0.01, CONVERSION = 1,
                AVG_TIME = 5, rate = 1\<rparr>"

definition prov_new :: provider where
  "prov_new = \<lparr>ID = 1, CURRENCY = ''USD'', TIME = 5, MIN_SUM = 1, MAX_SUM = 1000,
                LIMIT_MIN = 500, LIMIT_MAX = 1000, COMMISSION = 0.02, CONVERSION = 1,
                AVG_TIME = 5, rate = 1\<rparr>"

definition prov_z :: provider where
  "prov_z = \<lparr>ID = 3, CURRENCY = ''USD'', TIME = 0, MIN_SUM = 1, MAX_SUM = 1000,
              LIMIT_MIN = 500, LIMIT_MAX = 1000, COMMISSION = 0.01, CONVERSION = 0,
              AVG_TIME = 5, rate = 1\<rparr>"

definition prov_small :: provider where
  "prov_small = \<lparr>ID = 4, CURRENCY = ''USD'', TIME = 0, MIN_SUM = 1, MAX_SUM = 1000,
                  LIMIT_MIN = 0, LIMIT_MAX = 100, COMMISSION = 0.01, CONVERSION = 1,
                  AVG_TIME = 5, rate = 1\<rparr>"

definition pay_100 :: payment where
  "pay_100 = \<lparr>amount = 100, eventTimeRes = 10, cur = ''USD'', rate = 1\<rparr>"

definition pay_60 :: payment where
  "pay_60 = \<lparr>amount = 60, eventTimeRes = 10, cur = ''USD'', rate = 1\<rparr>"

definition pay_big :: payment where
  "pay_big = \<lparr>amount = 5000, eventTimeRes = 10, cur = ''USD'', rate = 1\<rparr>"

text \<open>
  The doubles nearest to 1.7, 0.6 and 1.1 (what the literals denote), and the doubles 0.5 and 2.0.
\<close>

definition b64_1_7 :: binary64 where "b64_1_7 = (7656119366529843, - 52)"
definition b64_0_6 :: binary64 where "b64_0_6 = (5404319552844595, - 53)"
definition b64_1_1 :: binary64 where "b64_1_1 = (4953959590107546, - 52)"
definition b64_0_5 :: binary64 where "b64_0_5 = (4503599627370496, - 53)"
definition b64_2_0 :: binary64 where "b64_2_0 = (4503599627370496, - 51)"

section \<open>Penalties\<close>

lemma limit_penalties_le:
  "limit_penalties providers (lu, la) items = Inr (u, a) \<Longrightarrow> lu \<le> la \<Longrightarrow> u \<le> a"
proof (induction items arbitrary: lu la)
  case Nil
  then show ?case by simp
next
  case (Cons it items)
  obtain pid ds where it: "it = (pid, ds)" by (cases it)
  from Cons.prems(1) it obtain p ps where f: "filter (\<lambda>p. ID p = pid) providers = p # ps"
    by (auto split: list.splits)
  define pen where "pen = 0.01 * (LIMIT_MIN p - ds)"
  define la' where "la' = (if LIMIT_MIN p > ds then la + pen else la)"
  define lu' where "lu' = (if ds > 0 \<and> LIMIT_MIN p > ds then lu + pen else lu)"
  have run: "limit_penalties providers (lu', la') items = Inr (u, a)"
    using Cons.prems(1) it f
    by (auto simp: la'_def lu'_def pen_def Let_def split: if_splits)
  have "0 \<le> pen" if "ds < LIMIT_MIN p"
    using that by (simp add: pen_def)
  then have "lu' \<le> la'"
    using Cons.prems(2) unfolding la'_def lu'_def by (cases "ds < LIMIT_MIN p") auto
  with run show ?case by (rule Cons.IH)
qed

text \<open>
  C8. Whatever the final daily sums and the providers' minimum limits are, when the
  penalty loop (started at 0 and 0, as line 176 and 177 do) returns, the penalty over
  the used providers is at most the penalty over all providers.
\<close>

theorem penalty_used_le_penalty_all:
  "limit_penalties providers (0, 0) items = Inr (penalty_used, penalty_all)
     \<Longrightarrow> penalty_used \<le> penalty_all"
  using limit_penalties_le [of providers 0 0 items penalty_used penalty_all] by simp

theorem penalty_used_le_penalty_all_witness:
  "limit_penalties [prov_a, prov_b] (0, 0) [(1, 100), (2, 0)] = Inr (4, 9) \<and> (4::real) \<le> 9"
  using penalty_used_le_penalty_all [of "[prov_a, prov_b]" "[(1, 100), (2, 0)]" 4 9]
  by (simp add: prov_a_def prov_b_def)

section \<open>TOPSIS scores\<close>

lemma nf_sum_Some_aux: "foldl (nf2 (+)) (Some a) (map Some zs) = Some (a + sum_list zs)"
  by (induction zs arbitrary: a) (simp_all add: nf2_def add.assoc)

lemma nf_sum_Some: "nf_sum (map Some zs) = Some (sum_list zs)"
  by (simp add: nf_sum_def nf_sum_Some_aux)

lemma sq_diff_Some:
  "map nf_sq (map2 (nf2 (-)) (map Some xs) (map Some v)) =
     map Some (map2 (\<lambda>x y. (x - y) * (x - y)) xs v)"
proof (induction xs arbitrary: v)
  case Nil
  then show ?case by simp
next
  case (Cons x xs)
  then show ?case by (cases v) (simp_all add: nf_sq_def nf2_def)
qed

lemma sum_sq_nonneg: "0 \<le> sum_list (map2 (\<lambda>x y. (x - y) * (x - y)) xs (v::real list))"
  by (rule sum_list_nonneg) auto

lemma dist_to_Some:
  "dist_to (map Some xs) (map Some v) =
     Some (sqrt (sum_list (map2 (\<lambda>x y. (x - y) * (x - y)) xs v)))"
  using sum_sq_nonneg [of xs v]
  unfolding dist_to_def sq_diff_Some nf_sum_Some nf_sqrt_def by simp

lemma sum_sq_zero_iff:
  "length xs = length v \<Longrightarrow>
     sum_list (map2 (\<lambda>x y. (x - y) * (x - y)) xs (v::real list)) = 0 \<longleftrightarrow> xs = v"
proof (induction xs v rule: list_induct2)
  case Nil
  then show ?case by simp
next
  case (Cons x xs y ys)
  have a: "0 \<le> (x - y) * (x - y)" by simp
  have b: "0 \<le> sum_list (map2 (\<lambda>x y. (x - y) * (x - y)) xs ys)" by (rule sum_sq_nonneg)
  have "(x - y) * (x - y) + sum_list (map2 (\<lambda>x y. (x - y) * (x - y)) xs ys) = 0
          \<longleftrightarrow> (x - y) * (x - y) = 0 \<and> sum_list (map2 (\<lambda>x y. (x - y) * (x - y)) xs ys) = 0"
    using a b by (rule add_nonneg_eq_0_iff)
  with Cons.IH show ?case by simp
qed

lemma coef_row_Some:
  assumes "length xs = length g" "length xs = length b"
  shows "coef_row (map Some g) (map Some b) (map Some xs) =
           (if xs = g \<and> xs = b then None
            else Some (sqrt (sum_list (map2 (\<lambda>x y. (x - y) * (x - y)) xs b)) /
                       (sqrt (sum_list (map2 (\<lambda>x y. (x - y) * (x - y)) xs g)) +
                        sqrt (sum_list (map2 (\<lambda>x y. (x - y) * (x - y)) xs b)))))"
proof -
  define dg where "dg = sqrt (sum_list (map2 (\<lambda>x y. (x - y) * (x - y)) xs g))"
  define db where "db = sqrt (sum_list (map2 (\<lambda>x y. (x - y) * (x - y)) xs b))"
  have nn: "0 \<le> dg" "0 \<le> db"
    by (simp_all add: dg_def db_def sum_sq_nonneg)
  have zg: "dg = 0 \<longleftrightarrow> xs = g"
    using assms(1) by (simp add: dg_def sum_sq_zero_iff)
  have zb: "db = 0 \<longleftrightarrow> xs = b"
    using assms(2) by (simp add: db_def sum_sq_zero_iff)
  have z: "dg + db = 0 \<longleftrightarrow> xs = g \<and> xs = b"
    using nn zg zb by (simp add: add_nonneg_eq_0_iff)
  have e: "coef_row (map Some g) (map Some b) (map Some xs) =
          (if dg + db = 0 then None else Some (db / (dg + db)))"
    unfolding coef_row_def dist_to_Some dg_def db_def by (simp add: nf_div_def nf2_def)
  have "coef_row (map Some g) (map Some b) (map Some xs) =
          (if xs = g \<and> xs = b then None else Some (db / (dg + db)))"
    by (simp only: e z)
  then show ?thesis
    unfolding dg_def db_def .
qed

lemma coef_row_range:
  assumes "length xs = length g" "length xs = length b"
  shows "(xs \<noteq> g \<or> xs \<noteq> b \<longrightarrow>
            (\<exists>s. coef_row (map Some g) (map Some b) (map Some xs) = Some s \<and> 0 \<le> s \<and> s \<le> 1)) \<and>
         (xs = g \<and> xs \<noteq> b \<longrightarrow> coef_row (map Some g) (map Some b) (map Some xs) = Some 1) \<and>
         (xs = b \<and> xs \<noteq> g \<longrightarrow> coef_row (map Some g) (map Some b) (map Some xs) = Some 0) \<and>
         (xs = g \<and> xs = b \<longrightarrow> coef_row (map Some g) (map Some b) (map Some xs) = None)"
proof -
  define dg where "dg = sqrt (sum_list (map2 (\<lambda>x y. (x - y) * (x - y)) xs g))"
  define db where "db = sqrt (sum_list (map2 (\<lambda>x y. (x - y) * (x - y)) xs b))"
  define c where "c = coef_row (map Some g) (map Some b) (map Some xs)"
  have nn: "0 \<le> dg" "0 \<le> db"
    by (simp_all add: dg_def db_def sum_sq_nonneg)
  have zg: "dg = 0 \<longleftrightarrow> xs = g"
    using assms(1) by (simp add: dg_def sum_sq_zero_iff)
  have zb: "db = 0 \<longleftrightarrow> xs = b"
    using assms(2) by (simp add: db_def sum_sq_zero_iff)
  have c: "c = (if xs = g \<and> xs = b then None else Some (db / (dg + db)))"
    unfolding c_def dg_def db_def by (rule coef_row_Some [OF assms])
  have both: "c = None" if "xs = g" "xs = b"
    using that c by simp
  have one: "c = Some 1" if "xs = g" "xs \<noteq> b"
  proof -
    from that zg zb have "dg = 0" "db \<noteq> 0" by simp_all
    then have "db / (dg + db) = 1" by simp
    with that c show ?thesis by simp
  qed
  have zero: "c = Some 0" if "xs = b" "xs \<noteq> g"
  proof -
    from that zg zb have "db = 0" by simp
    then have "db / (dg + db) = 0" by simp
    with that c show ?thesis by simp
  qed
  have range: "\<exists>s. c = Some s \<and> 0 \<le> s \<and> s \<le> 1" if "xs \<noteq> g \<or> xs \<noteq> b"
  proof -
    from that zg zb have "dg \<noteq> 0 \<or> db \<noteq> 0" by auto
    with nn have pos: "0 < dg + db" by linarith
    have "0 \<le> db / (dg + db)" using nn pos by simp
    moreover have "db / (dg + db) \<le> 1" using nn pos by simp
    moreover have "c = Some (db / (dg + db))" using that c by auto
    ultimately show ?thesis by blast
  qed
  show ?thesis
    unfolding c_def [symmetric] using both one zero range by blast
qed

text \<open>
  The two divisions of the program never divide a nonzero value by zero: a column whose
  Euclidean norm is zero holds zeros only, and when the two distances of a row add up to
  zero, the distance to the anti-ideal vector is zero.
\<close>

lemma sum_squares_zero:
  "sum_list (map (\<lambda>x. x * x) cs) = 0 \<Longrightarrow> x \<in> set cs \<Longrightarrow> x = (0::real)"
proof (induction cs)
  case Nil
  then show ?case by simp
next
  case (Cons c cs)
  have "0 \<le> c * c" by simp
  moreover have "0 \<le> sum_list (map (\<lambda>x. x * x) cs)"
    by (rule sum_list_nonneg) auto
  ultimately have "c * c = 0 \<and> sum_list (map (\<lambda>x. x * x) cs) = 0"
    using Cons.prems(1) by (simp add: add_nonneg_eq_0_iff)
  with Cons show ?case by auto
qed

lemma norm_zero_entries:
  assumes "nf_sqrt (nf_sum (map nf_sq (map Some cs))) = Some 0" "x \<in> set cs"
  shows "x = 0"
proof -
  have sq: "map nf_sq (map Some cs) = map Some (map (\<lambda>x. x * x) cs)"
    by (induction cs) (simp_all add: nf_sq_def nf2_def)
  have nn: "0 \<le> sum_list (map (\<lambda>x. x * x) cs)"
    by (rule sum_list_nonneg) auto
  from assms(1) have "sum_list (map (\<lambda>x. x * x) cs) = 0"
    unfolding sq nf_sum_Some nf_sqrt_def using nn by simp
  with assms(2) show ?thesis by (rule sum_squares_zero [rotated])
qed

lemma coef_divisor_zero:
  assumes "dist_to (map Some xs) (map Some g) = Some dg"
    and "dist_to (map Some xs) (map Some b) = Some db"
    and "dg + db = 0"
  shows "db = 0"
proof -
  have "0 \<le> dg" "0 \<le> db"
    using assms(1,2) unfolding dist_to_Some by (auto simp: sum_sq_nonneg)
  with assms(3) show ?thesis by linarith
qed

text \<open>
  C7, as amended. For a row, an ideal and an anti-ideal vector of finite values and equal
  lengths: unless the row equals both vectors, its score is a number of \<open>[0, 1]\<close>; it is
  1 when the row equals the ideal vector (and not the anti-ideal one) and 0 when the row
  equals the anti-ideal vector (and not the ideal one). When the row equals both, as the
  row of a single provider does, the score is NaN.
\<close>

theorem topsis_score_range:
  assumes "i < length matrix" and "matrix ! i = map Some xs"
    and "length xs = length good" and "length xs = length bad"
  shows "(xs \<noteq> good \<or> xs \<noteq> bad \<longrightarrow>
            (\<exists>s. calculate_distances matrix (map Some good) (map Some bad) ! i = Some s
                 \<and> 0 \<le> s \<and> s \<le> 1)) \<and>
         (xs = good \<and> xs \<noteq> bad \<longrightarrow>
            calculate_distances matrix (map Some good) (map Some bad) ! i = Some 1) \<and>
         (xs = bad \<and> xs \<noteq> good \<longrightarrow>
            calculate_distances matrix (map Some good) (map Some bad) ! i = Some 0) \<and>
         (xs = good \<and> xs = bad \<longrightarrow>
            calculate_distances matrix (map Some good) (map Some bad) ! i = None)"
proof -
  have e: "calculate_distances matrix (map Some good) (map Some bad) ! i =
          coef_row (map Some good) (map Some bad) (map Some xs)"
    using assms(1,2) by (simp add: calculate_distances_def)
  show ?thesis
    unfolding e by (rule coef_row_range [OF assms(3,4)])
qed

theorem topsis_score_range_witness:
  "(1::nat) < length [ [Some 1, Some 2], [Some 3, Some (1::real)] ] \<and>
   [ [Some 1, Some 2], [Some 3, Some (1::real)] ] ! 1 = map Some [3, 1] \<and>
   calculate_solutions [ [Some 1, Some 2], [Some 3, Some 1] ] [Max, Min]
     = Inr (map Some [3, 1], map Some [1, 2]) \<and>
   calculate_distances [ [Some 1, Some 2], [Some 3, Some 1] ] (map Some [3, 1]) (map Some [1, 2]) ! 1
     = Some 1"
  using topsis_score_range [of 1 "[ [Some 1, Some 2], [Some 3, Some 1] ]" "[3, 1]" "[3, 1]" "[1, 2]"]
  by (simp add: calculate_solutions_def np_max_def np_min_def column_def nf2_def)

theorem topsis_score_single_row_counterexample:
  "calculate_solutions [ [Some 1] ] [Max] = Inr ([Some 1], [Some 1]) \<and>
   calculate_distances [ [Some 1] ] [Some 1] [Some 1] = [None] \<and>
   topsis [prov_a] criterions weights marks = Inr [(prov_a, None)]"
  by (simp add: topsis_def normalize_matrix_def criterions_def weights_def marks_def
      calculate_solutions_def np_max_def np_min_def column_def calculate_distances_def
      coef_row_def dist_to_def nf_sq_def nf2_def nf_sum_def nf_sqrt_def nf_div_def
      rank_providers_def sort_values_def prov_a_def Let_def)

section \<open>Eligibility\<close>

lemma latest_mem: "latest p ps \<in> set (p # ps)"
  by (induction ps arbitrary: p) auto

lemma latest_greatest: "q \<in> set (p # ps) \<Longrightarrow> TIME q \<le> TIME (latest p ps)"
proof (induction ps arbitrary: p q)
  case Nil
  then show ?case by simp
next
  case (Cons a ps)
  define r where "r = (if TIME p < TIME a then a else p)"
  have mono: "TIME r \<le> TIME (latest r ps)"
    by (rule Cons.IH) simp
  show ?case
  proof (cases "q \<in> set ps")
    case True
    then have "TIME q \<le> TIME (latest r ps)"
      by (intro Cons.IH) simp
    then show ?thesis by (simp add: r_def)
  next
    case False
    with Cons.prems have "q = p \<or> q = a" by auto
    then have "TIME q \<le> TIME r" by (auto simp: r_def)
    with mono show ?thesis by (simp add: r_def)
  qed
qed

lemma idxmax_rows_ids_aux:
  "set is \<subseteq> ID ` set rows \<Longrightarrow>
     map ID (concat (map (\<lambda>i. case filter (\<lambda>p. ID p = i) rows of [] \<Rightarrow> []
                                | p # ps \<Rightarrow> [latest p ps]) is)) = is"
proof (induction "is")
  case Nil
  then show ?case by simp
next
  case (Cons i "is")
  from Cons.prems obtain r where "r \<in> set rows" "ID r = i" by auto
  then have "filter (\<lambda>p. ID p = i) rows \<noteq> []"
    by (auto simp: filter_empty_conv)
  then obtain p ps where f: "filter (\<lambda>p. ID p = i) rows = p # ps"
    by (cases "filter (\<lambda>p. ID p = i) rows") auto
  have "latest p ps \<in> set (filter (\<lambda>p. ID p = i) rows)"
    unfolding f by (rule latest_mem)
  then have "ID (latest p ps) = i" by simp
  with f Cons show ?case by simp
qed

lemma idxmax_rows_ids: "map ID (idxmax_rows rows) = sort (remdups (map ID rows))"
  unfolding idxmax_rows_def by (rule idxmax_rows_ids_aux) simp

lemma idxmax_rows_distinct: "distinct (map ID (idxmax_rows rows))"
  by (simp add: idxmax_rows_ids)

lemma idxmax_rows_mem:
  assumes "x \<in> set (idxmax_rows rows)"
  shows "x \<in> set rows \<and> (\<forall>q\<in>set rows. ID q = ID x \<longrightarrow> TIME q \<le> TIME x)"
proof -
  from assms obtain i where
    "x \<in> set (case filter (\<lambda>p. ID p = i) rows of [] \<Rightarrow> [] | p # ps \<Rightarrow> [latest p ps])"
    by (auto simp: idxmax_rows_def)
  then obtain p ps where f: "filter (\<lambda>p. ID p = i) rows = p # ps" and x: "x = latest p ps"
    by (cases "filter (\<lambda>p. ID p = i) rows") auto
  have m: "x \<in> set (filter (\<lambda>p. ID p = i) rows)"
    unfolding f x by (rule latest_mem)
  then have "ID x = i" "x \<in> set rows" by simp_all
  moreover have "TIME q \<le> TIME x" if "q \<in> set rows" "ID q = ID x" for q
  proof -
    from that \<open>ID x = i\<close> have "q \<in> set (filter (\<lambda>p. ID p = i) rows)" by simp
    then show ?thesis unfolding f x by (rule latest_greatest)
  qed
  ultimately show ?thesis by blast
qed

lemma idxmax_rows_covers:
  assumes "q \<in> set rows"
  shows "\<exists>x\<in>set (idxmax_rows rows). ID x = ID q"
proof -
  have "ID q \<in> set (map ID (idxmax_rows rows))"
    using assms by (simp add: idxmax_rows_ids)
  then show ?thesis by auto
qed

lemma mset_insert_score: "mset (insert_score x ys) = add_mset x (mset ys)"
  by (induction ys) simp_all

lemma mset_sort_values: "mset (sort_values xs) = mset xs"
  by (induction xs) (simp_all add: sort_values_def mset_insert_score)

lemma mset_map_sort_values: "mset (map f (sort_values xs)) = mset (map f xs)"
  by (metis mset_map mset_sort_values)

lemma length_normalize_matrix: "length (normalize_matrix ps cs ws) = length ps"
  by (simp add: normalize_matrix_def Let_def)

lemma topsis_mset:
  assumes "topsis ps cs ws ms = Inr ranked"
  shows "mset (map fst ranked) = mset ps"
proof -
  from assms obtain good bad where
    r: "ranked = sort_values (zip ps (calculate_distances (normalize_matrix ps cs ws) good bad))"
    by (auto simp: topsis_def rank_providers_def Let_def split: sum.splits)
  have "mset (map fst ranked) =
          image_mset fst (mset (zip ps (calculate_distances (normalize_matrix ps cs ws) good bad)))"
    unfolding r by (simp add: mset_sort_values)
  also have "\<dots> = mset (map fst (zip ps (calculate_distances (normalize_matrix ps cs ws) good bad)))"
    by simp
  also have "map fst (zip ps (calculate_distances (normalize_matrix ps cs ws) good bad)) = ps"
    by (simp add: calculate_distances_def length_normalize_matrix)
  finally show ?thesis .
qed

lemma filtered_providers_time:
  "p \<in> set (filtered_providers providers payment_time currency) \<Longrightarrow> TIME p \<le> payment_time"
  using idxmax_rows_mem [of p "filter (\<lambda>p. TIME p \<le> payment_time \<and> CURRENCY p = currency) providers"]
  by (simp add: filtered_providers_def)

lemma sorted_providers_mset:
  assumes "sorted_providers providers payment_time currency = Inr ranked"
  shows "mset (map fst ranked) = mset (filtered_providers providers payment_time currency)"
proof -
  from assms obtain r0 where
    t: "topsis (filtered_providers providers payment_time currency) criterions weights marks = Inr r0"
    and r: "ranked = sort_values (filter (\<lambda>(p, s). TIME p \<le> payment_time) r0)"
    by (auto simp: sorted_providers_def split: sum.splits)
  have m: "mset (map fst r0) = mset (filtered_providers providers payment_time currency)"
    using t by (rule topsis_mset)
  have "\<forall>x\<in>set r0. TIME (fst x) \<le> payment_time"
  proof
    fix x assume "x \<in> set r0"
    then have "fst x \<in># mset (map fst r0)" by simp
    then have "fst x \<in> set (filtered_providers providers payment_time currency)"
      unfolding m by simp
    then show "TIME (fst x) \<le> payment_time" by (rule filtered_providers_time)
  qed
  then have "filter (\<lambda>(p, s). TIME p \<le> payment_time) r0 = r0"
    by (auto simp: filter_id_conv)
  then have "mset (map fst ranked) = mset (map fst r0)"
    unfolding r by (simp add: mset_sort_values)
  with m show ?thesis by simp
qed

text \<open>
  C2, as amended. The providers a payment is offered to are, per identifier, the latest
  of the records of the payment's currency that are not later than the payment: each one
  is a record of the table with the currency and a \<^verbatim>\<open>TIME\<close> not after the payment, no
  record of the same identifier, currency and a \<^verbatim>\<open>TIME\<close> not after the payment is later,
  every identifier with such a record is offered, and no identifier is offered twice.
  The time of the payment is applied before the latest record is chosen, so a later
  record hides no earlier one.
\<close>

theorem eligible_latest_record_before_payment:
  assumes "sorted_providers providers payment_time currency = Inr ranked"
  shows "(\<forall>p\<in>set (map fst ranked).
            p \<in> set providers \<and> CURRENCY p = currency \<and> TIME p \<le> payment_time \<and>
            (\<forall>q\<in>set providers. ID q = ID p \<and> CURRENCY q = currency \<and> TIME q \<le> payment_time
                \<longrightarrow> TIME q \<le> TIME p)) \<and>
         (\<forall>q\<in>set providers. CURRENCY q = currency \<and> TIME q \<le> payment_time
                \<longrightarrow> (\<exists>p\<in>set (map fst ranked). ID p = ID q)) \<and>
         distinct (map ID (map fst ranked))"
proof -
  define rows where "rows = filter (\<lambda>p. TIME p \<le> payment_time \<and> CURRENCY p = currency) providers"
  have m: "mset (map fst ranked) = mset (idxmax_rows rows)"
    using sorted_providers_mset [OF assms] by (simp add: filtered_providers_def rows_def)
  then have s: "set (map fst ranked) = set (idxmax_rows rows)"
    by (rule mset_eq_setD)
  have a: "p \<in> set providers \<and> CURRENCY p = currency \<and> TIME p \<le> payment_time \<and>
            (\<forall>q\<in>set providers. ID q = ID p \<and> CURRENCY q = currency \<and> TIME q \<le> payment_time
                \<longrightarrow> TIME q \<le> TIME p)" if "p \<in> set (map fst ranked)" for p
  proof -
    from that s have "p \<in> set (idxmax_rows rows)" by simp
    from idxmax_rows_mem [OF this] show ?thesis by (auto simp: rows_def)
  qed
  have b: "\<exists>p\<in>set (map fst ranked). ID p = ID q"
    if "q \<in> set providers" "CURRENCY q = currency \<and> TIME q \<le> payment_time" for q
  proof -
    from that have "q \<in> set rows" by (simp add: rows_def)
    from idxmax_rows_covers [OF this] show ?thesis unfolding s .
  qed
  have "mset (map ID (map fst ranked)) = mset (map ID (idxmax_rows rows))"
    using m by (metis mset_map)
  then have c: "distinct (map ID (map fst ranked))"
    using idxmax_rows_distinct [of rows] by (metis mset_eq_imp_distinct_iff)
  from a b c show ?thesis by blast
qed

theorem eligible_latest_record_before_payment_witness:
  "sorted_providers [prov_old, prov_new] 3 ''USD'' = Inr [(prov_old, None)] \<and>
   TIME prov_old \<le> 3 \<and> distinct (map ID (map fst [(prov_old, None :: npfloat)]))"
  using eligible_latest_record_before_payment
    [of "[prov_old, prov_new]" 3 "''USD''" "[(prov_old, None)]"]
  by (simp add: sorted_providers_def filtered_providers_def idxmax_rows_def
      topsis_def normalize_matrix_def criterions_def weights_def marks_def
      calculate_solutions_def np_max_def np_min_def column_def calculate_distances_def
      coef_row_def dist_to_def nf_sq_def nf2_def nf_sum_def nf_sqrt_def nf_div_def
      rank_providers_def sort_values_def prov_old_def prov_new_def Let_def)

theorem eligibility_two_step_counterexample:
  "sorted_providers [prov_old, prov_new] 3 ''USD'' = Inr [(prov_old, None)] \<and>
   spec_two_step_eligibility [prov_old, prov_new] 3 ''USD'' = []"
  by (simp add: sorted_providers_def filtered_providers_def idxmax_rows_def
      spec_two_step_eligibility_def
      topsis_def normalize_matrix_def criterions_def weights_def marks_def
      calculate_solutions_def np_max_def np_min_def column_def calculate_distances_def
      coef_row_def dist_to_def nf_sq_def nf2_def nf_sum_def nf_sqrt_def nf_div_def
      rank_providers_def sort_values_def prov_old_def prov_new_def Let_def)

section \<open>Routing: what one provider, one payment and a batch may change\<close>

lemmas ranking_defs =
  sorted_providers_def filtered_providers_def idxmax_rows_def
  topsis_def normalize_matrix_def criterions_def weights_def marks_def
  calculate_solutions_def np_max_def np_min_def column_def calculate_distances_def
  coef_row_def dist_to_def nf_sq_def nf2_def nf_sum_def nf_sqrt_def nf_div_def
  rank_providers_def sort_values_def

lemmas batch_defs =
  optimize_routes_def prepare_providers_def first_of_def initial_sums_def
  process_payment_def try_provider_def str_def digit_def

lemma try_provider_cases:
  assumes "try_provider rng amt st p = Inr st'"
  shows "unchanged st st' \<or> committed amt p st st'"
  using assms
  by (auto simp: try_provider_def unchanged_def committed_def Let_def
      split: if_splits option.splits)

lemma route_loop_cases:
  assumes "route_loop rng amt st ps = Inr st'"
  shows "unchanged st st' \<or> (\<exists>p\<in>set ps. committed amt p st st')"
  using assms
proof (induction ps arbitrary: st)
  case Nil
  then show ?case by (simp add: unchanged_def)
next
  case (Cons p ps)
  from Cons.prems obtain st1 where
    one: "try_provider rng amt st p = Inr st1" and rest: "route_loop rng amt st1 ps = Inr st'"
    by (auto split: sum.splits)
  from try_provider_cases [OF one] show ?case
  proof
    assume u: "unchanged st st1"
    from Cons.IH [OF rest] show ?thesis
    proof
      assume "unchanged st1 st'"
      with u have "unchanged st st'" by (simp add: unchanged_def)
      then show ?thesis ..
    next
      assume "\<exists>q\<in>set ps. committed amt q st1 st'"
      then obtain q where "q \<in> set ps" "committed amt q st1 st'" ..
      with u have "q \<in> set (p # ps)" "committed amt q st st'"
        by (simp_all add: unchanged_def committed_def)
      then show ?thesis by blast
    qed
  next
    assume c: "committed amt p st st1"
    then have "\<not> is_first st1" by (simp add: committed_def)
    with Cons.IH [OF rest] have "unchanged st1 st'"
      by (auto simp: committed_def)
    with c have "committed amt p st st'"
      by (simp add: unchanged_def committed_def)
    then show ?thesis by auto
  qed
qed

lemma sorted_providers_subset:
  assumes "sorted_providers providers payment_time currency = Inr ranked"
  shows "set (map fst ranked) \<subseteq> set providers"
proof -
  have "set (map fst ranked) = set (filtered_providers providers payment_time currency)"
    using sorted_providers_mset [OF assms] by (rule mset_eq_setD)
  also have "\<dots> \<subseteq> set providers"
  proof
    fix x assume "x \<in> set (filtered_providers providers payment_time currency)"
    then have "x \<in> set (filter (\<lambda>p. TIME p \<le> payment_time \<and> CURRENCY p = currency) providers)"
      unfolding filtered_providers_def using idxmax_rows_mem by blast
    then show "x \<in> set providers" by simp
  qed
  finally show ?thesis .
qed

text \<open>
  One payment either leaves the daily sums alone, or one record of the table commits it:
  that provider is the successful one and its sum grows by the converted amount, within
  the record's \<^verbatim>\<open>LIMIT_MAX\<close>.
\<close>

lemma process_payment_cases:
  assumes "process_payment providers rng (daily, n) pay = Inr (row, daily', n')"
  shows "daily' = daily \<or>
         (\<exists>p\<in>set providers. Successful_provider row = ID p \<and>
            (\<exists>d. map_of daily (ID p) = Some d \<and>
                 d + amount pay * payment.rate pay \<le> LIMIT_MAX p \<and>
                 daily' = AList.update (ID p) (d + amount pay * payment.rate pay) daily))"
proof -
  define st0 where "st0 = \<lparr>route = [], total_commission = 0, total_processing_time = 0,
      is_first = True, successful = 0, provider_daily_sums = daily, draws = n\<rparr>"
  from assms obtain ranked st where
    r: "sorted_providers providers (eventTimeRes pay) (cur pay) = Inr ranked" and
    l: "route_loop rng (amount pay * payment.rate pay) st0 (map fst ranked) = Inr st" and
    row: "Successful_provider row = successful st" and d: "daily' = provider_daily_sums st"
    by (auto simp: process_payment_def Let_def st0_def split: sum.splits)
  from route_loop_cases [OF l] show ?thesis
  proof
    assume "unchanged st0 st"
    then show ?thesis by (simp add: unchanged_def d st0_def)
  next
    assume "\<exists>p\<in>set (map fst ranked). committed (amount pay * payment.rate pay) p st0 st"
    then obtain p where m: "p \<in> set (map fst ranked)"
      and c: "committed (amount pay * payment.rate pay) p st0 st" ..
    from m sorted_providers_subset [OF r] have "p \<in> set providers" by blast
    with c show ?thesis
      unfolding committed_def row d st0_def by auto
  qed
qed

lemma process_payment_sums:
  assumes step: "process_payment providers rng (daily, n) pay = Inr (row, daily', n')"
    and nonneg: "0 \<le> amount pay * payment.rate pay"
    and key: "map_of daily i = Some d"
  shows "\<exists>d'. map_of daily' i = Some d' \<and> d \<le> d' \<and> (d < d' \<longrightarrow> Successful_provider row = i)"
  using process_payment_cases [OF step]
proof
  assume "daily' = daily"
  with key show ?thesis by simp
next
  assume "\<exists>p\<in>set providers. Successful_provider row = ID p \<and>
            (\<exists>d. map_of daily (ID p) = Some d \<and>
                 d + amount pay * payment.rate pay \<le> LIMIT_MAX p \<and>
                 daily' = AList.update (ID p) (d + amount pay * payment.rate pay) daily)"
  then obtain p where "p \<in> set providers" and s: "Successful_provider row = ID p" and
    "\<exists>d. map_of daily (ID p) = Some d \<and> d + amount pay * payment.rate pay \<le> LIMIT_MAX p \<and>
         daily' = AList.update (ID p) (d + amount pay * payment.rate pay) daily"
    by blast
  then obtain e where e: "map_of daily (ID p) = Some e"
    and u: "daily' = AList.update (ID p) (e + amount pay * payment.rate pay) daily"
    by blast
  show ?thesis
  proof (cases "i = ID p")
    case True
    with key e have "e = d" by simp
    with True u s nonneg show ?thesis by (simp add: update_conv')
  next
    case False
    with key u show ?thesis by (simp add: update_conv')
  qed
qed

lemma process_payment_within:
  assumes step: "process_payment providers rng (daily, n) pay = Inr (row, daily', n')"
    and fixed: "\<forall>p\<in>set providers. \<forall>q\<in>set providers. ID p = ID q \<longrightarrow> LIMIT_MAX p = LIMIT_MAX q"
    and within: "\<forall>p\<in>set providers. \<forall>d. map_of daily (ID p) = Some d \<longrightarrow> d \<le> LIMIT_MAX p"
  shows "\<forall>p\<in>set providers. \<forall>d. map_of daily' (ID p) = Some d \<longrightarrow> d \<le> LIMIT_MAX p"
  using process_payment_cases [OF step]
proof
  assume "daily' = daily"
  with within show ?thesis by simp
next
  assume "\<exists>p\<in>set providers. Successful_provider row = ID p \<and>
            (\<exists>d. map_of daily (ID p) = Some d \<and>
                 d + amount pay * payment.rate pay \<le> LIMIT_MAX p \<and>
                 daily' = AList.update (ID p) (d + amount pay * payment.rate pay) daily)"
  then obtain p where p: "p \<in> set providers" and
    "\<exists>d. map_of daily (ID p) = Some d \<and> d + amount pay * payment.rate pay \<le> LIMIT_MAX p \<and>
         daily' = AList.update (ID p) (d + amount pay * payment.rate pay) daily"
    by blast
  then obtain e where le: "e + amount pay * payment.rate pay \<le> LIMIT_MAX p"
    and u: "daily' = AList.update (ID p) (e + amount pay * payment.rate pay) daily"
    by blast
  show ?thesis
  proof (intro ballI allI impI)
    fix q d assume q: "q \<in> set providers" and k: "map_of daily' (ID q) = Some d"
    show "d \<le> LIMIT_MAX q"
    proof (cases "ID q = ID p")
      case True
      with k u have "d = e + amount pay * payment.rate pay" by (simp add: update_conv')
      moreover from True p q fixed have "LIMIT_MAX q = LIMIT_MAX p" by blast
      ultimately show ?thesis using le by simp
    next
      case False
      with k u have "map_of daily (ID q) = Some d" by (simp add: update_conv')
      with q within show ?thesis by blast
    qed
  qed
qed

lemma payments_loop_ConsE:
  assumes "payments_loop providers rng s (pay # pays) = Inr (rows, s2)"
  obtains row s1 rows1 where
    "process_payment providers rng s pay = Inr (row, s1)"
    "payments_loop providers rng s1 pays = Inr (rows1, s2)"
    "rows = row # rows1"
proof (cases "process_payment providers rng s pay")
  case (Inl e)
  with assms show ?thesis by simp
next
  case (Inr a)
  obtain row s1 where a: "a = (row, s1)" by (cases a)
  show ?thesis
  proof (cases "payments_loop providers rng s1 pays")
    case (Inl e)
    with assms Inr a show ?thesis by simp
  next
    case (Inr b)
    obtain rows1 s3 where b: "b = (rows1, s3)" by (cases b)
    from assms \<open>process_payment providers rng s pay = Inr a\<close> a Inr b
    have "rows = row # rows1" "s3 = s2" by simp_all
    with that \<open>process_payment providers rng s pay = Inr a\<close> a Inr b show ?thesis by simp
  qed
qed

lemma payments_loop_sums:
  assumes "payments_loop providers rng (daily, n) pays = Inr (rows, daily', n')"
    and "\<forall>pay\<in>set pays. 0 \<le> amount pay * payment.rate pay"
    and "map_of daily i = Some d"
  shows "\<exists>d'. map_of daily' i = Some d' \<and> d \<le> d' \<and>
              (d < d' \<longrightarrow> (\<exists>r\<in>set rows. Successful_provider r = i))"
  using assms
proof (induction pays arbitrary: daily n rows d)
  case Nil
  then show ?case by simp
next
  case (Cons pay pays)
  from Cons.prems(1) obtain row s1 rows1 where
    step0: "process_payment providers rng (daily, n) pay = Inr (row, s1)" and
    rest0: "payments_loop providers rng s1 pays = Inr (rows1, daily', n')" and
    rows: "rows = row # rows1"
    by (rule payments_loop_ConsE)
  obtain daily1 n1 where s1: "s1 = (daily1, n1)" by (cases s1)
  note step = step0 [unfolded s1] and rest = rest0 [unfolded s1]
  from Cons.prems(2) have nn: "0 \<le> amount pay * payment.rate pay"
    and nns: "\<forall>pay\<in>set pays. 0 \<le> amount pay * payment.rate pay" by simp_all
  from process_payment_sums [OF step nn Cons.prems(3)] obtain d1 where
    k1: "map_of daily1 i = Some d1" and le1: "d \<le> d1"
    and s1: "d < d1 \<longrightarrow> Successful_provider row = i" by blast
  from Cons.IH [OF rest nns k1] obtain d' where
    k': "map_of daily' i = Some d'" and le': "d1 \<le> d'"
    and s': "d1 < d' \<longrightarrow> (\<exists>r\<in>set rows1. Successful_provider r = i)" by blast
  have c: "d < d' \<longrightarrow> (\<exists>r\<in>set rows. Successful_provider r = i)"
  proof
    assume lt: "d < d'"
    show "\<exists>r\<in>set rows. Successful_provider r = i"
    proof (cases "d < d1")
      case True
      with s1 have "Successful_provider row = i" by simp
      then show ?thesis unfolding rows by simp
    next
      case False
      with lt le1 have "d1 < d'" by simp
      with s' obtain r where "r \<in> set rows1" "Successful_provider r = i" by blast
      then show ?thesis unfolding rows by auto
    qed
  qed
  from le1 le' have b: "d \<le> d'" by simp
  from k' b c show ?case by (intro exI conjI)
qed

lemma payments_loop_within:
  assumes "payments_loop providers rng (daily, n) pays = Inr (rows, daily', n')"
    and "\<forall>p\<in>set providers. \<forall>q\<in>set providers. ID p = ID q \<longrightarrow> LIMIT_MAX p = LIMIT_MAX q"
    and "\<forall>p\<in>set providers. \<forall>d. map_of daily (ID p) = Some d \<longrightarrow> d \<le> LIMIT_MAX p"
  shows "\<forall>p\<in>set providers. \<forall>d. map_of daily' (ID p) = Some d \<longrightarrow> d \<le> LIMIT_MAX p"
  using assms
proof (induction pays arbitrary: daily n rows)
  case Nil
  from Nil.prems(1) have "daily' = daily" by simp
  with Nil.prems(3) show ?case by simp
next
  case (Cons pay pays)
  from Cons.prems(1) obtain row s1 rows1 where
    step0: "process_payment providers rng (daily, n) pay = Inr (row, s1)" and
    rest0: "payments_loop providers rng s1 pays = Inr (rows1, daily', n')" and
    "rows = row # rows1"
    by (rule payments_loop_ConsE)
  obtain daily1 n1 where s1: "s1 = (daily1, n1)" by (cases s1)
  note step = step0 [unfolded s1] and rest = rest0 [unfolded s1]
  from process_payment_within [OF step Cons.prems(2,3)]
  have "\<forall>p\<in>set providers. \<forall>d. map_of daily1 (ID p) = Some d \<longrightarrow> d \<le> LIMIT_MAX p" .
  from Cons.IH [OF rest Cons.prems(2) this] show ?case .
qed

lemma initial_sums_zero_aux:
  "(\<And>i d. map_of acc i = Some d \<Longrightarrow> d = 0) \<Longrightarrow>
     map_of (fold (\<lambda>p d. AList.update (ID p) (0::real) d) ps acc) i = Some d \<Longrightarrow> d = 0"
proof (induction ps arbitrary: acc)
  case Nil
  then show ?case by simp
next
  case (Cons p ps)
  have "e = 0" if "map_of (AList.update (ID p) 0 acc) j = Some e" for j e
    using that Cons.prems(1) [of j e] by (auto simp: update_conv' split: if_splits)
  with Cons.prems(2) show ?case
    using Cons.IH [of "AList.update (ID p) 0 acc"] by simp
qed

text \<open>The batch starts with every daily sum at 0 (line 110).\<close>

lemma initial_sums_zero: "map_of (initial_sums providers) i = Some d \<Longrightarrow> d = 0"
  unfolding initial_sums_def by (rule initial_sums_zero_aux [where acc = "[]"]) simp_all

text \<open>
  The lemmas above on the daily sums are statements in the arithmetic of the reals.
  \<open>payments_loop_sums\<close>: over payments with non-negative converted amounts a daily sum
  never decreases, and it grows only for the successful provider of one of the payments.
  \<open>payments_loop_within\<close>: the sums stay within the daily maxima. This bound rests on
  two things that the program does not give. The difference of line 154 and the sum of
  line 164 have to be exact, and they are rounded; the next section computes with the
  doubles. And the converted \<^verbatim>\<open>LIMIT_MAX\<close> has to be the same on all records of a
  provider: line 97 gives them the first \<^verbatim>\<open>LIMIT_MAX\<close> of the provider, but line 106
  multiplies it with the rate of the currency of each record.
\<close>

text \<open>
  What one attempt does to the daily sum of its provider, in the arithmetic of the reals:
  the two skip checks, the draw, the capacity check and the commit under \<^verbatim>\<open>is_first\<close>.
  \<open>daily_sum_step\<close> has this shape, with the operations of the doubles.
\<close>

lemma try_provider_daily_sum:
  assumes "map_of (provider_daily_sums st) (ID p) = Some daily"
    and "try_provider rng amt st p = Inr st'"
  shows "map_of (provider_daily_sums st') (ID p) = Some
           (if amt < MIN_SUM p \<or> MAX_SUM p < amt then daily
            else if \<not> daily < LIMIT_MAX p then daily
            else if \<not> rng (draws st) < CONVERSION p then daily
            else if LIMIT_MAX p - daily < amt then daily
            else if is_first st then daily + amt
            else daily)"
  using assms
  by (auto simp: try_provider_def Let_def update_conv' split: if_splits)

section \<open>The daily sum in double precision: an overshoot\<close>

text \<open>
  \<open>round_shift\<close> drops \<open>k\<close> bits and moves to a nearest multiple of \<open>2 ^ k\<close>: the result is
  off by at most half of \<open>2 ^ k\<close>.
\<close>

lemma round_shift_nearest: "2 * \<bar>m - round_shift m k * 2 ^ k\<bar> \<le> 2 ^ k"
proof -
  define q where "q = m div 2 ^ k"
  define r where "r = m mod 2 ^ k"
  have m: "m = q * 2 ^ k + r"
    unfolding q_def r_def by (metis div_mult_mod_eq)
  have r: "0 \<le> r" "r < 2 ^ k"
    unfolding r_def by simp_all
  have "round_shift m k = q \<and> 2 * r \<le> 2 ^ k \<or> round_shift m k = q + 1 \<and> 2 ^ k \<le> 2 * r"
    unfolding round_shift_def q_def [symmetric] r_def [symmetric] Let_def by auto
  then show ?thesis
  proof
    assume "round_shift m k = q \<and> 2 * r \<le> 2 ^ k"
    with m r show ?thesis by simp
  next
    assume a: "round_shift m k = q + 1 \<and> 2 ^ k \<le> 2 * r"
    then have "m - round_shift m k * 2 ^ k = r - 2 ^ k"
      using m by (simp add: algebra_simps)
    with a r show ?thesis by simp
  qed
qed

text \<open>
  The three doubles are the nearest ones to the decimal values: they have 53-bit
  mantissas and lie within half a unit of the last place of 1.7, 0.6 and 1.1.
\<close>

lemma b64_literals_nearest:
  "\<bar>b64_value b64_1_7 - 1.7\<bar> \<le> 1 / 2 ^ 53 \<and>
   \<bar>b64_value b64_0_6 - 0.6\<bar> \<le> 1 / 2 ^ 54 \<and>
   \<bar>b64_value b64_1_1 - 1.1\<bar> \<le> 1 / 2 ^ 53 \<and>
   bitlen 7656119366529843 = 53 \<and> bitlen 5404319552844595 = 53 \<and>
   bitlen 4953959590107546 = 53"
  by (simp add: b64_value_def b64_1_7_def b64_0_6_def b64_1_1_def)

text \<open>
  Rounding at the mantissas of the example. The exact difference \<open>1.7 - 0.6\<close> and the
  exact sum \<open>0.6 + 1.1\<close> of the doubles both need 54 bits and end in a one, a tie: the
  first is rounded down to the double of 1.1, the second up, past the double of 1.7.
\<close>

lemma b64_round_53:
  "b64_round (7656119366529843, - 52) = (7656119366529843, - 52)"
  "b64_round (5404319552844595, - 53) = (5404319552844595, - 53)"
  by (simp_all add: b64_round_def round_shift_def Let_def)

lemma b64_round_difference:
  "b64_round (9907919180215091, - 53) = (4953959590107546, - 52)"
  by (simp add: b64_round_def round_shift_def Let_def)

lemma b64_round_sum:
  "b64_round (15312238733059687, - 53) = (7656119366529844, - 52)"
  by (simp add: b64_round_def round_shift_def Let_def)

lemma b64_sub_1_7_zero: "b64_sub b64_1_7 (0, 0) = b64_1_7"
  by (simp add: b64_sub_def b64_add_def b64_1_7_def b64_round_53 Let_def del: bitlen.simps)

lemma b64_add_zero_0_6: "b64_add (0, 0) b64_0_6 = b64_0_6"
  by (simp add: b64_add_def b64_0_6_def b64_round_53 Let_def del: bitlen.simps)

lemma b64_sub_1_7_0_6: "b64_sub b64_1_7 b64_0_6 = b64_1_1"
  by (simp add: b64_sub_def b64_add_def b64_1_7_def b64_0_6_def b64_1_1_def
      b64_round_difference Let_def del: bitlen.simps)

lemma b64_add_0_6_1_1: "b64_add b64_0_6 b64_1_1 = (7656119366529844, - 52)"
  by (simp add: b64_add_def b64_0_6_def b64_1_1_def b64_round_sum Let_def del: bitlen.simps)

lemma b64_less_example:
  "\<not> b64_less b64_0_6 b64_0_5" "\<not> b64_less b64_2_0 b64_0_6"
  "\<not> b64_less b64_1_1 b64_0_5" "\<not> b64_less b64_2_0 b64_1_1"
  "b64_less (0, 0) b64_1_7" "b64_less b64_0_6 b64_1_7"
  "\<not> b64_less b64_1_7 b64_0_6" "\<not> b64_less b64_1_1 b64_1_1"
  "b64_less b64_1_7 (7656119366529844, - 52)"
  by (simp_all add: b64_less_def b64_1_7_def b64_0_6_def b64_1_1_def b64_0_5_def b64_2_0_def)

lemma b64_value_example: "b64_value b64_1_7 < b64_value (7656119366529844, - 52)"
  by (simp add: b64_value_def b64_1_7_def)

lemma daily_sum_first_payment:
  "daily_sum_step b64_0_5 b64_2_0 b64_1_7 True True (0, 0) b64_0_6 = b64_0_6"
  by (simp add: daily_sum_step_def b64_less_example b64_sub_1_7_zero b64_add_zero_0_6 Let_def)

lemma daily_sum_second_payment:
  "daily_sum_step b64_0_5 b64_2_0 b64_1_7 True True b64_0_6 b64_1_1 =
     (7656119366529844, - 52)"
  by (simp add: daily_sum_step_def b64_less_example b64_sub_1_7_0_6 b64_add_0_6_1_1 Let_def)

text \<open>
  C5, on the code. One provider with the daily maximum 1.7 and the bounds 0.5 and 2.0 for a
  single payment (rate 1.0, so the conversion of lines 104 to 106 changes nothing), a
  conversion probability of 1.0, and two payments of 0.6 and of 1.1, each the first
  commit of its payment. The first payment brings the sum from 0 to 0.6. For the second
  one the available limit \<open>1.7 - 0.6\<close> is computed as exactly the double of 1.1, so
  the check of line 156 lets the payment through, and line 164 computes \<open>0.6 + 1.1\<close> as
  the next double above that of 1.7: the accumulated amount is above the daily maximum.
\<close>

theorem daily_sum_exceeds_limit_max_in_binary64:
  "daily_sum_step b64_0_5 b64_2_0 b64_1_7 True True
     (daily_sum_step b64_0_5 b64_2_0 b64_1_7 True True (0, 0) b64_0_6) b64_1_1 =
     (7656119366529844, - 52) \<and>
   b64_less b64_1_7 (7656119366529844, - 52) \<and>
   b64_value b64_1_7 < b64_value (7656119366529844, - 52)"
  by (simp add: daily_sum_first_payment daily_sum_second_payment b64_less_example
      b64_value_example)

section \<open>The batch summary\<close>

text \<open>
  C10. When every row that \<^verbatim>\<open>optimize_routes\<close> returns has an empty flow, the mean time
  that \<^verbatim>\<open>process_transactions\<close> returns is NaN, the mean of an empty column, and not
  zero: the mean is taken over the rows with a flow only.
\<close>

theorem mean_time_nan_without_flow:
  assumes "optimize_routes (take 10000 transactions) (take 10000 prov) rng = Inr ((rows, pu, pa), n)"
    and "\<forall>r\<in>set rows. flow r = ''''"
  shows "process_transactions transactions prov rng =
           Inr ((None, sum_list (map Profit rows), pu, pa), n)"
proof -
  from assms(2) have "filter (\<lambda>r. flow r \<noteq> '''') rows = []"
    by (simp add: filter_empty_conv)
  with assms(1) show ?thesis
    by (simp add: process_transactions_def np_mean_def)
qed

theorem mean_time_nan_without_flow_witness:
  "optimize_routes (take 10000 [pay_big]) (take 10000 [prov_a]) (\<lambda>_. 0) =
     Inr (([\<lparr>payment_row = pay_big, flow = '''', Profit = 0, Processing_Time = 0,
              Successful_provider = 0\<rparr>], 0, 5), 0) \<and>
   process_transactions [pay_big] [prov_a] (\<lambda>_. 0) = Inr ((None, 0, 0, 5), 0)"
  using mean_time_nan_without_flow
    [of "[pay_big]" "[prov_a]" "\<lambda>_. 0"
        "[\<lparr>payment_row = pay_big, flow = '''', Profit = 0, Processing_Time = 0,
              Successful_provider = 0\<rparr>]" 0 5 0]
  by (simp add: batch_defs ranking_defs prov_a_def pay_big_def Let_def)

lemma process_paymentE:
  assumes "process_payment providers rng (daily, n) pay = Inr (row, daily', n')"
  obtains ranked st where
    "sorted_providers providers (eventTimeRes pay) (cur pay) = Inr ranked"
    "route_loop rng (amount pay * payment.rate pay)
       \<lparr>route = [], total_commission = 0, total_processing_time = 0, is_first = True,
         successful = 0, provider_daily_sums = daily, draws = n\<rparr> (map fst ranked) = Inr st"
    "row = \<lparr>payment_row = pay, flow = join ''-'' (route st),
            Profit = (if join ''-'' (route st) \<noteq> '''' then
                        amount pay * payment.rate pay - total_commission st else 0),
            Processing_Time = total_processing_time st,
            Successful_provider = successful st\<rparr>"
    "daily' = provider_daily_sums st" "n' = draws st"
proof (cases "sorted_providers providers (eventTimeRes pay) (cur pay)")
  case (Inl e)
  with assms show ?thesis by (simp add: process_payment_def)
next
  case (Inr ranked)
  note r = this
  show ?thesis
  proof (cases "route_loop rng (amount pay * payment.rate pay)
       \<lparr>route = [], total_commission = 0, total_processing_time = 0, is_first = True,
         successful = 0, provider_daily_sums = daily, draws = n\<rparr> (map fst ranked)")
    case (Inl e)
    with assms r show ?thesis by (simp add: process_payment_def)
  next
    case (Inr st)
    with assms r have
      "row = \<lparr>payment_row = pay, flow = join ''-'' (route st),
            Profit = (if join ''-'' (route st) \<noteq> '''' then
                        amount pay * payment.rate pay - total_commission st else 0),
            Processing_Time = total_processing_time st,
            Successful_provider = successful st\<rparr>"
      "daily' = provider_daily_sums st" "n' = draws st"
      by (simp_all add: process_payment_def)
    with r Inr show ?thesis by (rule that)
  qed
qed

lemma process_paymentI:
  assumes "sorted_providers providers (eventTimeRes pay) (cur pay) = Inr ranked"
    and "route_loop rng (amount pay * payment.rate pay)
       \<lparr>route = [], total_commission = 0, total_processing_time = 0, is_first = True,
         successful = 0, provider_daily_sums = daily, draws = n\<rparr> (map fst ranked) = Inr st"
  shows "process_payment providers rng (daily, n) pay =
           Inr (\<lparr>payment_row = pay, flow = join ''-'' (route st),
                  Profit = (if join ''-'' (route st) \<noteq> '''' then
                              amount pay * payment.rate pay - total_commission st else 0),
                  Processing_Time = total_processing_time st,
                  Successful_provider = successful st\<rparr>,
                provider_daily_sums st, draws st)"
  using assms by (simp add: process_payment_def)

section \<open>The random stream\<close>

text \<open>
  A run reads the stream of uniform samples only at the positions it draws, one after
  the other; a stream that agrees with it there gives the same run.
\<close>

lemma try_provider_rng:
  "rng' (draws st) = rng (draws st) \<Longrightarrow> try_provider rng' amt st p = try_provider rng amt st p"
  by (simp add: try_provider_def Let_def split: option.splits)

lemma try_provider_draws:
  "try_provider rng amt st p = Inr st' \<Longrightarrow> draws st \<le> draws st' \<and> draws st' \<le> Suc (draws st)"
  by (auto simp: try_provider_def Let_def split: if_splits option.splits)

text \<open>A provider that takes no sample does not look at the stream.\<close>

lemma try_provider_no_draw:
  "try_provider rng amt st p = Inr st' \<Longrightarrow> draws st' = draws st \<Longrightarrow>
     try_provider rng' amt st p = Inr st'"
  by (auto simp: try_provider_def Let_def split: if_splits option.splits)

lemma route_loop_draws:
  "route_loop rng amt st ps = Inr st' \<Longrightarrow> draws st \<le> draws st'"
proof (induction ps arbitrary: st)
  case Nil
  then show ?case by simp
next
  case (Cons p ps)
  from Cons.prems obtain st1 where
    one: "try_provider rng amt st p = Inr st1" and rest: "route_loop rng amt st1 ps = Inr st'"
    by (auto split: sum.splits)
  from try_provider_draws [OF one] Cons.IH [OF rest] show ?case by simp
qed

lemma route_loop_rng:
  assumes "route_loop rng amt st ps = Inr st'"
    and "\<And>k. draws st \<le> k \<Longrightarrow> k < draws st' \<Longrightarrow> rng' k = rng k"
  shows "route_loop rng' amt st ps = Inr st'"
  using assms
proof (induction ps arbitrary: st)
  case Nil
  then show ?case by simp
next
  case (Cons p ps)
  from Cons.prems(1) obtain st1 where
    one: "try_provider rng amt st p = Inr st1" and rest: "route_loop rng amt st1 ps = Inr st'"
    by (auto split: sum.splits)
  note d1 = try_provider_draws [OF one] and d2 = route_loop_draws [OF rest]
  have one': "try_provider rng' amt st p = Inr st1"
  proof (cases "draws st < draws st'")
    case True
    have "rng' (draws st) = rng (draws st)"
      by (rule Cons.prems(2)) (simp_all add: True)
    then have "try_provider rng' amt st p = try_provider rng amt st p"
      by (rule try_provider_rng)
    with one show ?thesis by simp
  next
    case False
    with d1 d2 have "draws st1 = draws st" by simp
    with one show ?thesis by (rule try_provider_no_draw)
  qed
  have "route_loop rng' amt st1 ps = Inr st'"
  proof (rule Cons.IH [OF rest])
    fix k assume k: "draws st1 \<le> k" "k < draws st'"
    from k d1 have "draws st \<le> k" by simp
    then show "rng' k = rng k" using k(2) by (rule Cons.prems(2))
  qed
  with one' show ?case by simp
qed

lemma process_payment_draws:
  assumes "process_payment providers rng (daily, n) pay = Inr (row, daily', n')"
  shows "n \<le> n'"
proof -
  from assms obtain ranked st where
    "sorted_providers providers (eventTimeRes pay) (cur pay) = Inr ranked" and
    l: "route_loop rng (amount pay * payment.rate pay)
          \<lparr>route = [], total_commission = 0, total_processing_time = 0, is_first = True,
            successful = 0, provider_daily_sums = daily, draws = n\<rparr> (map fst ranked) = Inr st" and
    "row = \<lparr>payment_row = pay, flow = join ''-'' (route st),
            Profit = (if join ''-'' (route st) \<noteq> '''' then
                        amount pay * payment.rate pay - total_commission st else 0),
            Processing_Time = total_processing_time st,
            Successful_provider = successful st\<rparr>" and
    "daily' = provider_daily_sums st" and n': "n' = draws st"
    by (rule process_paymentE)
  from route_loop_draws [OF l] n' show ?thesis by simp
qed

lemma process_payment_rng:
  assumes "process_payment providers rng (daily, n) pay = Inr (row, daily', n')"
    and "\<And>k. n \<le> k \<Longrightarrow> k < n' \<Longrightarrow> rng' k = rng k"
  shows "process_payment providers rng' (daily, n) pay = Inr (row, daily', n')"
proof -
  from assms(1) obtain ranked st where
    r: "sorted_providers providers (eventTimeRes pay) (cur pay) = Inr ranked" and
    l: "route_loop rng (amount pay * payment.rate pay)
          \<lparr>route = [], total_commission = 0, total_processing_time = 0, is_first = True,
            successful = 0, provider_daily_sums = daily, draws = n\<rparr> (map fst ranked) = Inr st" and
    row: "row = \<lparr>payment_row = pay, flow = join ''-'' (route st),
            Profit = (if join ''-'' (route st) \<noteq> '''' then
                        amount pay * payment.rate pay - total_commission st else 0),
            Processing_Time = total_processing_time st,
            Successful_provider = successful st\<rparr>" and
    d: "daily' = provider_daily_sums st" and n': "n' = draws st"
    by (rule process_paymentE)
  have "route_loop rng' (amount pay * payment.rate pay)
          \<lparr>route = [], total_commission = 0, total_processing_time = 0, is_first = True,
            successful = 0, provider_daily_sums = daily, draws = n\<rparr> (map fst ranked) = Inr st"
  proof (rule route_loop_rng [OF l])
    fix k
    assume "draws \<lparr>route = [], total_commission = 0, total_processing_time = 0, is_first = True,
            successful = 0, provider_daily_sums = daily, draws = n\<rparr> \<le> k" "k < draws st"
    then have "n \<le> k" "k < n'" by (simp_all add: n')
    then show "rng' k = rng k" by (rule assms(2))
  qed
  from process_paymentI [OF r this] show ?thesis
    unfolding row d n' .
qed

lemma payments_loop_draws:
  "payments_loop providers rng (daily, n) pays = Inr (rows, daily', n') \<Longrightarrow> n \<le> n'"
proof (induction pays arbitrary: daily n rows)
  case Nil
  then show ?case by simp
next
  case (Cons pay pays)
  from Cons.prems obtain row s1 rows1 where
    step0: "process_payment providers rng (daily, n) pay = Inr (row, s1)" and
    rest0: "payments_loop providers rng s1 pays = Inr (rows1, daily', n')" and
    "rows = row # rows1"
    by (rule payments_loop_ConsE)
  obtain daily1 n1 where s1: "s1 = (daily1, n1)" by (cases s1)
  from process_payment_draws [OF step0 [unfolded s1] ] Cons.IH [OF rest0 [unfolded s1] ]
  show ?case by simp
qed

lemma payments_loop_rng:
  assumes "payments_loop providers rng (daily, n) pays = Inr (rows, daily', n')"
    and "\<And>k. n \<le> k \<Longrightarrow> k < n' \<Longrightarrow> rng' k = rng k"
  shows "payments_loop providers rng' (daily, n) pays = Inr (rows, daily', n')"
  using assms
proof (induction pays arbitrary: daily n rows)
  case Nil
  then show ?case by simp
next
  case (Cons pay pays)
  from Cons.prems(1) obtain row s1 rows1 where
    step0: "process_payment providers rng (daily, n) pay = Inr (row, s1)" and
    rest0: "payments_loop providers rng s1 pays = Inr (rows1, daily', n')" and
    rows: "rows = row # rows1"
    by (rule payments_loop_ConsE)
  obtain daily1 n1 where s1: "s1 = (daily1, n1)" by (cases s1)
  note step = step0 [unfolded s1] and rest = rest0 [unfolded s1]
  note d1 = process_payment_draws [OF step] and d2 = payments_loop_draws [OF rest]
  have step': "process_payment providers rng' (daily, n) pay = Inr (row, daily1, n1)"
  proof (rule process_payment_rng [OF step])
    fix k assume "n \<le> k" "k < n1"
    with d2 have "n \<le> k" "k < n'" by simp_all
    then show "rng' k = rng k" by (rule Cons.prems(2))
  qed
  have rest': "payments_loop providers rng' (daily1, n1) pays = Inr (rows1, daily', n')"
  proof (rule Cons.IH [OF rest])
    fix k assume "n1 \<le> k" "k < n'"
    with d1 have "n \<le> k" "k < n'" by simp_all
    then show "rng' k = rng k" by (rule Cons.prems(2))
  qed
  from step' rest' rows show ?case by simp
qed

lemma optimize_routes_rng:
  assumes "optimize_routes payments providers rng = Inr (res, n)"
    and "\<And>k. k < n \<Longrightarrow> rng' k = rng k"
  shows "optimize_routes payments providers rng' = Inr (res, n)"
proof (cases "payments_loop (prepare_providers providers) rng
                (initial_sums (prepare_providers providers), 0) payments")
  case (Inl e)
  with assms(1) show ?thesis by (simp add: optimize_routes_def Let_def)
next
  case (Inr a)
  obtain rows daily m where a: "a = (rows, daily, m)" by (cases a)
  from assms(1) Inr a have m: "m = n"
    by (auto simp: optimize_routes_def Let_def split: sum.splits)
  have "payments_loop (prepare_providers providers) rng'
          (initial_sums (prepare_providers providers), 0) payments = Inr (rows, daily, m)"
  proof (rule payments_loop_rng [OF Inr [unfolded a] ])
    fix k assume "0 \<le> k" "k < m"
    with m have "k < n" by simp
    then show "rng' k = rng k" by (rule assms(2))
  qed
  with Inr a have "optimize_routes payments providers rng' = optimize_routes payments providers rng"
    by (simp add: optimize_routes_def Let_def)
  with assms(1) show ?thesis by simp
qed

text \<open>
  C9. The flows and the metrics are a function of the tables and of the samples drawn:
  when a run of the batch has taken \<open>n\<close> samples from its stream, a run on the same
  tables with a stream that has the same first \<open>n\<close> samples returns the same rows (so
  the same flows), the same penalties, the same mean time and the same total profit.
\<close>

theorem same_stream_same_batch:
  assumes "optimize_routes (take 10000 transactions) (take 10000 prov) rng = Inr (res, n)"
    and "\<forall>k<n. rng' k = rng k"
  shows "optimize_routes (take 10000 transactions) (take 10000 prov) rng' = Inr (res, n) \<and>
         process_transactions transactions prov rng' = process_transactions transactions prov rng"
proof -
  have "optimize_routes (take 10000 transactions) (take 10000 prov) rng' = Inr (res, n)"
    using assms(1)
  proof (rule optimize_routes_rng)
    fix k assume "k < n"
    with assms(2) show "rng' k = rng k" by blast
  qed
  with assms(1) show ?thesis by (simp add: process_transactions_def)
qed

theorem same_stream_same_batch_witness:
  "optimize_routes (take 10000 [pay_100]) (take 10000 [prov_z]) (\<lambda>k. if k < 1 then 0 else 1 / 2) =
     Inr (([\<lparr>payment_row = pay_100, flow = ''3'', Profit = 100, Processing_Time = 5,
              Successful_provider = 0\<rparr>], 0, 5), 1) \<and>
   process_transactions [pay_100] [prov_z] (\<lambda>k. if k < 1 then 0 else 1 / 2) =
     process_transactions [pay_100] [prov_z] (\<lambda>_. 0)"
  using same_stream_same_batch
    [of "[pay_100]" "[prov_z]" "\<lambda>_. 0"
        "([\<lparr>payment_row = pay_100, flow = ''3'', Profit = 100, Processing_Time = 5,
              Successful_provider = 0\<rparr>], 0, 5)" 1 "\<lambda>k. if k < 1 then 0 else 1 / 2"]
  by (simp add: batch_defs ranking_defs prov_z_def pay_100_def Let_def)

section \<open>Single payments\<close>

lemma solutions_loop_total:
  "matrix \<noteq> [] \<Longrightarrow> \<exists>good bad. solutions_loop matrix i mks = Inr (good, bad)"
proof (induction mks arbitrary: i)
  case Nil
  then show ?case by simp
next
  case (Cons mk mks)
  from Cons.prems obtain r rs where m: "matrix = r # rs" by (cases matrix) auto
  from Cons.IH [OF Cons.prems, of "Suc i"] obtain good bad where
    "solutions_loop matrix (Suc i) mks = Inr (good, bad)" by (elim exE)
  then show ?case
    by (cases mk) (simp_all add: m np_max_def np_min_def column_def)
qed

text \<open>The ranking fails only on an empty table (\<^verbatim>\<open>max\<close> of an empty column).\<close>

lemma topsis_total:
  assumes "ps \<noteq> []"
  shows "\<exists>ranked. topsis ps cs ws ms = Inr ranked"
proof -
  from assms have "normalize_matrix ps cs ws \<noteq> []"
    using length_normalize_matrix [of ps cs ws] by auto
  from solutions_loop_total [OF this, of 0 ms] obtain good bad where
    "solutions_loop (normalize_matrix ps cs ws) 0 ms = Inr (good, bad)" by (elim exE)
  then show ?thesis
    by (simp add: topsis_def calculate_solutions_def Let_def)
qed

lemma sorted_providers_total:
  assumes "filtered_providers providers payment_time currency \<noteq> []"
  shows "\<exists>ranked. sorted_providers providers payment_time currency = Inr ranked"
proof -
  from topsis_total [OF assms, of criterions weights marks] obtain r0 where
    "topsis (filtered_providers providers payment_time currency) criterions weights marks = Inr r0"
    by (elim exE)
  then show ?thesis by (simp add: sorted_providers_def)
qed

lemma sorted_providers_single:
  assumes "filtered_providers providers payment_time currency = [p]"
  shows "\<exists>ranked. sorted_providers providers payment_time currency = Inr ranked \<and>
                  map fst ranked = [p]"
proof -
  from assms have "filtered_providers providers payment_time currency \<noteq> []" by simp
  from sorted_providers_total [OF this] obtain ranked where
    r: "sorted_providers providers payment_time currency = Inr ranked" by (elim exE)
  from sorted_providers_mset [OF r] assms have "mset (map fst ranked) = {#p#}" by simp
  then have "map fst ranked = [p]" by (simp only: mset_single_iff)
  with r show ?thesis by (intro exI conjI)
qed

lemma str_nat_nonempty: "str_nat n \<noteq> []"
  by (subst str_nat.simps) simp

lemma str_nonempty: "str i \<noteq> []"
  by (simp add: str_def str_nat_nonempty)

text \<open>
  A provider whose draw fails is appended to the route, and its time counts while
  nothing is committed (lines 148 to 151).
\<close>

lemma try_provider_draw_fails:
  assumes "MIN_SUM p \<le> amt" "amt \<le> MAX_SUM p"
    and "map_of (provider_daily_sums st) (ID p) = Some d" "d < LIMIT_MAX p"
    and "0 \<le> CONVERSION p" "CONVERSION p \<le> 1" "\<not> rng (draws st) < CONVERSION p"
  shows "try_provider rng amt st p =
           Inr (st\<lparr>draws := Suc (draws st),
                    total_processing_time :=
                      (if is_first st then total_processing_time st + AVG_TIME p
                       else total_processing_time st),
                    route := route st @ [str (ID p)]\<rparr>)"
  using assms by (simp add: try_provider_def Let_def)

lemma sole_provider_no_conversion:
  assumes f: "filtered_providers providers (eventTimeRes pay) (cur pay) = [p]"
    and c: "CONVERSION p = 0"
    and lo: "MIN_SUM p \<le> amount pay * payment.rate pay"
    and hi: "amount pay * payment.rate pay \<le> MAX_SUM p"
    and k: "map_of daily (ID p) = Some d" and lim: "d < LIMIT_MAX p"
    and u: "0 \<le> rng n"
  shows "process_payment providers rng (daily, n) pay =
           Inr (\<lparr>payment_row = pay, flow = str (ID p),
                  Profit = amount pay * payment.rate pay,
                  Processing_Time = AVG_TIME p, Successful_provider = 0\<rparr>, daily, Suc n)"
proof -
  define st0 where "st0 = \<lparr>route = [], total_commission = 0, total_processing_time = 0,
      is_first = True, successful = 0, provider_daily_sums = daily, draws = n\<rparr>"
  from sorted_providers_single [OF f] obtain ranked where
    r: "sorted_providers providers (eventTimeRes pay) (cur pay) = Inr ranked" and
    m: "map fst ranked = [p]" by (elim exE conjE)
  have "try_provider rng (amount pay * payment.rate pay) st0 p =
          Inr (st0\<lparr>draws := Suc (draws st0),
                    total_processing_time :=
                      (if is_first st0 then total_processing_time st0 + AVG_TIME p
                       else total_processing_time st0),
                    route := route st0 @ [str (ID p)]\<rparr>)"
    using lo hi k lim c u by (intro try_provider_draw_fails [where d = d]) (simp_all add: st0_def)
  then have l: "route_loop rng (amount pay * payment.rate pay) st0 (map fst ranked) =
          Inr \<lparr>route = [str (ID p)], total_commission = 0, total_processing_time = AVG_TIME p,
                is_first = True, successful = 0, provider_daily_sums = daily, draws = Suc n\<rparr>"
    by (simp add: m st0_def)
  from process_paymentI [OF r l [unfolded st0_def] ] show ?thesis
    by (simp add: str_nonempty)
qed

text \<open>
  C3, as amended. A payment whose only eligible provider has conversion probability 0,
  with the amount inside the provider's bounds and the daily limit not reached: the flow
  is the provider's identifier, no successful provider is recorded (the column keeps its
  0), the time is the provider's average time, and the recorded profit is the whole
  converted amount, since the flow is not empty and no commission was taken.
\<close>

theorem sole_provider_without_conversion:
  assumes "filtered_providers providers (eventTimeRes pay) (cur pay) = [p]"
    and "CONVERSION p = 0"
    and "MIN_SUM p \<le> amount pay * payment.rate pay"
    and "amount pay * payment.rate pay \<le> MAX_SUM p"
    and "map_of daily (ID p) = Some d" and "d < LIMIT_MAX p"
    and "0 \<le> rng n"
  shows "process_payment providers rng (daily, n) pay =
           Inr (\<lparr>payment_row = pay, flow = str (ID p),
                  Profit = amount pay * payment.rate pay,
                  Processing_Time = AVG_TIME p, Successful_provider = 0\<rparr>, daily, Suc n)"
  using assms by (rule sole_provider_no_conversion)

theorem sole_provider_without_conversion_witness:
  "filtered_providers [prov_z] (eventTimeRes pay_100) (cur pay_100) = [prov_z] \<and>
   CONVERSION prov_z = 0 \<and>
   MIN_SUM prov_z \<le> amount pay_100 * payment.rate pay_100 \<and>
   amount pay_100 * payment.rate pay_100 \<le> MAX_SUM prov_z \<and>
   map_of [(3, 0 :: real)] (ID prov_z) = Some 0 \<and> 0 < LIMIT_MAX prov_z \<and>
   process_payment [prov_z] (\<lambda>_. 0) ([(3, 0)], 0) pay_100 =
     Inr (\<lparr>payment_row = pay_100, flow = ''3'', Profit = 100, Processing_Time = 5,
            Successful_provider = 0\<rparr>, [(3, 0)], 1)"
  using sole_provider_without_conversion [of "[prov_z]" pay_100 prov_z "[(3, 0)]" 0 "\<lambda>_. 0" 0]
  by (simp add: filtered_providers_def idxmax_rows_def str_def digit_def prov_z_def pay_100_def)

theorem sole_provider_profit_counterexample:
  "optimize_routes [pay_100] [prov_z] (\<lambda>_. 0) =
     Inr (([\<lparr>payment_row = pay_100, flow = ''3'', Profit = 100, Processing_Time = 5,
              Successful_provider = 0\<rparr>], 0, 5), 1)"
  by (simp add: batch_defs ranking_defs prov_z_def pay_100_def Let_def)

section \<open>A successful draw without capacity\<close>

text \<open>
  When the draw succeeds and the capacity left is below the amount (lines 154 to 158),
  the provider's time counts while nothing is committed, as after a failed draw, but the
  provider is not appended to the route.
\<close>

lemma try_provider_capacity_short:
  assumes "MIN_SUM p \<le> amt" "amt \<le> MAX_SUM p"
    and "map_of (provider_daily_sums st) (ID p) = Some d" "d < LIMIT_MAX p"
    and "0 \<le> CONVERSION p" "CONVERSION p \<le> 1" "rng (draws st) < CONVERSION p"
    and "LIMIT_MAX p - d < amt"
  shows "try_provider rng amt st p =
           Inr (st\<lparr>draws := Suc (draws st),
                    total_processing_time :=
                      (if is_first st then total_processing_time st + AVG_TIME p
                       else total_processing_time st)\<rparr>)"
  using assms by (simp add: try_provider_def Let_def)

text \<open>
  C1, on the code. A provider with daily maximum 100 and 60 accumulated draws
  successfully for a payment of 60: the time 5 is added and a sample is taken, and the
  route stays empty. Beside it the sibling branch: after a failed draw the provider is
  in the route.
\<close>

theorem capacity_shortfall_not_in_route:
  "try_provider (\<lambda>_. 0) 60
     \<lparr>route = [], total_commission = 0, total_processing_time = 0, is_first = True,
       successful = 0, provider_daily_sums = [(4, 60)], draws = 0\<rparr> prov_small =
   Inr \<lparr>route = [], total_commission = 0, total_processing_time = 5, is_first = True,
         successful = 0, provider_daily_sums = [(4, 60)], draws = 1\<rparr> \<and>
   try_provider (\<lambda>_. 0) 60
     \<lparr>route = [], total_commission = 0, total_processing_time = 0, is_first = True,
       successful = 0, provider_daily_sums = [(3, 0)], draws = 0\<rparr> prov_z =
   Inr \<lparr>route = [''3''], total_commission = 0, total_processing_time = 5, is_first = True,
         successful = 0, provider_daily_sums = [(3, 0)], draws = 1\<rparr>"
  by (simp add: try_provider_def str_def digit_def prov_small_def prov_z_def Let_def)

text \<open>
  C6, on the code. Two payments of 60 to the one provider with daily maximum 100: the
  first is committed; for the second the provider is attempted (a second sample is
  taken and its time 5 is recorded), yet the flow of the second payment is empty.
\<close>

theorem attempted_provider_missing_from_flow:
  "optimize_routes [pay_60, pay_60] [prov_small] (\<lambda>_. 0) =
     Inr (([\<lparr>payment_row = pay_60, flow = ''4'', Profit = 59.4, Processing_Time = 5,
              Successful_provider = 4\<rparr>,
            \<lparr>payment_row = pay_60, flow = '''', Profit = 0, Processing_Time = 5,
              Successful_provider = 0\<rparr>], 0, 0), 2)"
  by (simp add: batch_defs ranking_defs prov_small_def pay_60_def Let_def)

section \<open>Ranking two providers\<close>











end
